theory Spec2Isabelle
  imports
    Main
    "HOL-Library.Char_ord"
    "HOL-Library.List_Lexorder"
    "HOL-Library.Product_Lexorder"
    "HOL-Library.Multiset"
begin

section \<open>Biomappings resources: the data model\<close>

text \<open>
  The module \<^verbatim>\<open>biomappings/resources/__init__.py\<close> keeps four tab-separated tables
  (true mappings, false mappings, unsure mappings, predictions) as text files and offers
  load, append, write, lint and filter operations on them.

  Conventions of the embedding:
  \<^item> a Python \<^verbatim>\<open>str\<close> is a \<open>string\<close>; a character is its code point, and both the
    order on characters (\<open>Char_ord\<close>) and the lexicographic orders on strings and tuples
    (\<open>List_Lexorder\<close>, \<open>Product_Lexorder\<close>) are the ones Python compares with;
  \<^item> a record of a table (\<^verbatim>\<open>Mapping[str, str]\<close>) is a map \<open>string \<rightharpoonup> string\<close>;
  \<^item> the resource directory is a store from file path to the text of the file;
  \<^item> an exception is a value \<open>Inl e\<close> of a sum type; the content that a write
    interrupted by an exception leaves behind is not part of the model;
  \<^item> text files are read with universal newlines and written with \<^verbatim>\<open>\n\<close> as line
    separator, as on POSIX systems.
\<close>

datatype error =
    FileNotFoundError string
  | StopIteration
  | KeyError string
  | CsvError
  | TypeError

type_synonym str_dict = "string \<rightharpoonup> string"

type_synonym resources = "string \<rightharpoonup> string"

definition TAB :: char where "TAB = CHR 0x09"
definition LF :: char where "LF = CHR 0x0A"
definition CR :: char where "CR = CHR 0x0D"
definition QUOTE :: char where "QUOTE = CHR 0x22"

definition MAPPINGS_HEADER :: "string list" where
  "MAPPINGS_HEADER =
     [''source prefix'', ''source identifier'', ''source name'', ''relation'',
      ''target prefix'', ''target identifier'', ''target name'', ''type'', ''source'']"

definition PREDICTIONS_HEADER :: "string list" where
  "PREDICTIONS_HEADER =
     [''source prefix'', ''source identifier'', ''source name'', ''relation'',
      ''target prefix'', ''target identifier'', ''target name'', ''type'', ''confidence'',
      ''source'']"

subsection \<open>Exceptions as values\<close>

fun traverse :: "('a \<Rightarrow> error + 'b) \<Rightarrow> 'a list \<Rightarrow> error + 'b list" where
  "traverse f [] = Inr []"
| "traverse f (x # xs) =
     (case f x of
        Inl e \<Rightarrow> Inl e
      | Inr y \<Rightarrow> (case traverse f xs of Inl e \<Rightarrow> Inl e | Inr ys \<Rightarrow> Inr (y # ys)))"

definition and_then :: "error + 'a \<Rightarrow> ('a \<Rightarrow> error + 'b) \<Rightarrow> error + 'b" where
  "and_then r f = (case r of Inl e \<Rightarrow> Inl e | Inr x \<Rightarrow> f x)"

text \<open>\<^verbatim>\<open>d[k]\<close>: a missing key raises \<^verbatim>\<open>KeyError\<close>.\<close>

definition getitem :: "(string \<rightharpoonup> 'v) \<Rightarrow> string \<Rightarrow> error + 'v" where
  "getitem d k = (case d k of None \<Rightarrow> Inl (KeyError k) | Some v \<Rightarrow> Inr v)"

text \<open>\<^verbatim>\<open>dict(zip(keys, values))\<close>: the shorter sequence bounds the result, a later
  occurrence of a key wins.\<close>

definition dict_zip :: "string list \<Rightarrow> 'v list \<Rightarrow> (string \<rightharpoonup> 'v)" where
  "dict_zip ks vs = Map.empty(ks [\<mapsto>] vs)"

subsection \<open>Typed tuples\<close>

text \<open>
  A \<^verbatim>\<open>NamedTuple\<close> does not check the types of its fields at run time, so the fields
  carry values of one type \<open>'v\<close> of Python objects (annotated \<^verbatim>\<open>str\<close>, and \<^verbatim>\<open>float\<close>
  for the confidence).
\<close>

record 'v MappingTuple =
  source_prefix :: 'v
  source_id :: 'v
  source_name :: 'v
  relation :: 'v
  target_prefix :: 'v
  target_identifier :: 'v
  target_name :: 'v
  type :: 'v
  source :: 'v


record 'v PredictionTuple =
  source_prefix :: 'v
  source_id :: 'v
  source_name :: 'v
  relation :: 'v
  target_prefix :: 'v
  target_identifier :: 'v
  target_name :: 'v
  type :: 'v
  confidence :: 'v
  source :: 'v

text \<open>Iterating over a named tuple gives its fields in declaration order.\<close>

definition MappingTuple_iter :: "'v MappingTuple \<Rightarrow> 'v list" where
  "MappingTuple_iter self =
     [MappingTuple.source_prefix self, MappingTuple.source_id self,
      MappingTuple.source_name self, MappingTuple.relation self,
      MappingTuple.target_prefix self, MappingTuple.target_identifier self,
      MappingTuple.target_name self, MappingTuple.type self, MappingTuple.source self]"

text \<open>\<^verbatim>\<open>cls(*values)\<close>: the constructor takes exactly nine positional arguments.\<close>

fun MappingTuple_new :: "'v list \<Rightarrow> error + 'v MappingTuple" where
  "MappingTuple_new [a, b, c, d, e, f, g, h, i] =
     Inr \<lparr>MappingTuple.source_prefix = a, source_id = b, source_name = c, relation = d,
          target_prefix = e, target_identifier = f, target_name = g, type = h, source = i\<rparr>"
| "MappingTuple_new _ = Inl TypeError"

definition MappingTuple_as_dict :: "'v MappingTuple \<Rightarrow> (string \<rightharpoonup> 'v)" where
  "MappingTuple_as_dict self = dict_zip MAPPINGS_HEADER (MappingTuple_iter self)"

definition MappingTuple_from_dict :: "(string \<rightharpoonup> 'v) \<Rightarrow> error + 'v MappingTuple" where
  "MappingTuple_from_dict mapping =
     and_then (traverse (getitem mapping) MAPPINGS_HEADER) MappingTuple_new"

definition PredictionTuple_iter :: "'v PredictionTuple \<Rightarrow> 'v list" where
  "PredictionTuple_iter self =
     [PredictionTuple.source_prefix self, PredictionTuple.source_id self,
      PredictionTuple.source_name self, PredictionTuple.relation self,
      PredictionTuple.target_prefix self, PredictionTuple.target_identifier self,
      PredictionTuple.target_name self, PredictionTuple.type self,
      PredictionTuple.confidence self, PredictionTuple.source self]"

fun PredictionTuple_new :: "'v list \<Rightarrow> error + 'v PredictionTuple" where
  "PredictionTuple_new [a, b, c, d, e, f, g, h, i, j] =
     Inr \<lparr>PredictionTuple.source_prefix = a, source_id = b, source_name = c, relation = d,
          target_prefix = e, target_identifier = f, target_name = g, type = h,
          confidence = i, source = j\<rparr>"
| "PredictionTuple_new _ = Inl TypeError"

definition PredictionTuple_as_dict :: "'v PredictionTuple \<Rightarrow> (string \<rightharpoonup> 'v)" where
  "PredictionTuple_as_dict self = dict_zip PREDICTIONS_HEADER (PredictionTuple_iter self)"

definition PredictionTuple_from_dict :: "(string \<rightharpoonup> 'v) \<Rightarrow> error + 'v PredictionTuple" where
  "PredictionTuple_from_dict mapping =
     and_then (traverse (getitem mapping) PREDICTIONS_HEADER) PredictionTuple_new"

section \<open>The table codec\<close>

subsection \<open>Reading text files\<close>

text \<open>
  \<^verbatim>\<open>open(fname, "r")\<close> reads with universal newlines: \<^verbatim>\<open>\r\n\<close> and a lone \<^verbatim>\<open>\r\<close>
  arrive as \<^verbatim>\<open>\n\<close>. Iterating over the file gives its lines, each with its line end;
  the last line has none when the text does not end with one.
\<close>

fun universal_newlines :: "string \<Rightarrow> string" where
  "universal_newlines [] = []"
| "universal_newlines [c] = (if c = CR then [LF] else [c])"
| "universal_newlines (c # d # cs) =
     (if c = CR \<and> d = LF then LF # universal_newlines cs
      else if c = CR then LF # universal_newlines (d # cs)
      else c # universal_newlines (d # cs))"

fun lines_from :: "string \<Rightarrow> string \<Rightarrow> string list" where
  "lines_from acc [] = (if acc = [] then [] else [acc])"
| "lines_from acc (c # cs) =
     (if c = LF then (acc @ [c]) # lines_from [] cs else lines_from (acc @ [c]) cs)"

definition readlines :: "string \<Rightarrow> string list" where
  "readlines text = lines_from [] (universal_newlines text)"

subsection \<open>The reader of the csv module\<close>

text \<open>
  \<^verbatim>\<open>csv.reader(fh, delimiter="\t")\<close> is the state machine of CPython's \<^verbatim>\<open>_csv\<close> module in
  the default dialect: the quote character is the double quote, a doubled quote inside a
  quoted field stands for one quote, there is no escape character, initial spaces are
  kept and the reader is not strict. The states that only an escape character reaches are
  left out. A field may hold at most \<^verbatim>\<open>csv.field_size_limit()\<close> characters.
\<close>

datatype parser_state =
    START_RECORD
  | START_FIELD
  | IN_FIELD
  | IN_QUOTED_FIELD
  | QUOTE_IN_QUOTED_FIELD
  | EAT_CRNL

record reader =
  rd_fields :: "string list"
  rd_field :: string
  rd_state :: parser_state

definition field_limit :: nat where
  "field_limit = 131072"

definition parse_reset :: reader where
  "parse_reset = \<lparr>rd_fields = [], rd_field = [], rd_state = START_RECORD\<rparr>"

definition parse_save_field :: "reader \<Rightarrow> reader" where
  "parse_save_field self = self\<lparr>rd_fields := rd_fields self @ [rd_field self], rd_field := []\<rparr>"

definition parse_add_char :: "reader \<Rightarrow> char \<Rightarrow> error + reader" where
  "parse_add_char self c =
     (if field_limit \<le> length (rd_field self) then Inl CsvError
      else Inr (self\<lparr>rd_field := rd_field self @ [c]\<rparr>))"

text \<open>The character \<open>None\<close> is the end-of-line mark that follows the characters of a line.\<close>

definition start_field :: "reader \<Rightarrow> char option \<Rightarrow> error + reader" where
  "start_field self c =
     (case c of
        None \<Rightarrow> Inr ((parse_save_field self)\<lparr>rd_state := START_RECORD\<rparr>)
      | Some ch \<Rightarrow>
          if ch = LF \<or> ch = CR then Inr ((parse_save_field self)\<lparr>rd_state := EAT_CRNL\<rparr>)
          else if ch = QUOTE then Inr (self\<lparr>rd_state := IN_QUOTED_FIELD\<rparr>)
          else if ch = TAB then Inr (parse_save_field self)
          else and_then (parse_add_char self ch) (\<lambda>self'. Inr (self'\<lparr>rd_state := IN_FIELD\<rparr>)))"

definition parse_process_char :: "reader \<Rightarrow> char option \<Rightarrow> error + reader" where
  "parse_process_char self c =
     (case rd_state self of
        START_RECORD \<Rightarrow>
          (case c of
             None \<Rightarrow> Inr self
           | Some ch \<Rightarrow>
               if ch = LF \<or> ch = CR then Inr (self\<lparr>rd_state := EAT_CRNL\<rparr>)
               else start_field (self\<lparr>rd_state := START_FIELD\<rparr>) c)
      | START_FIELD \<Rightarrow> start_field self c
      | IN_FIELD \<Rightarrow>
          (case c of
             None \<Rightarrow> Inr ((parse_save_field self)\<lparr>rd_state := START_RECORD\<rparr>)
           | Some ch \<Rightarrow>
               if ch = LF \<or> ch = CR then Inr ((parse_save_field self)\<lparr>rd_state := EAT_CRNL\<rparr>)
               else if ch = TAB then Inr ((parse_save_field self)\<lparr>rd_state := START_FIELD\<rparr>)
               else parse_add_char self ch)
      | IN_QUOTED_FIELD \<Rightarrow>
          (case c of
             None \<Rightarrow> Inr self
           | Some ch \<Rightarrow>
               if ch = QUOTE then Inr (self\<lparr>rd_state := QUOTE_IN_QUOTED_FIELD\<rparr>)
               else parse_add_char self ch)
      | QUOTE_IN_QUOTED_FIELD \<Rightarrow>
          (case c of
             None \<Rightarrow> Inr ((parse_save_field self)\<lparr>rd_state := START_RECORD\<rparr>)
           | Some ch \<Rightarrow>
               if ch = QUOTE then
                 and_then (parse_add_char self ch) (\<lambda>self'. Inr (self'\<lparr>rd_state := IN_QUOTED_FIELD\<rparr>))
               else if ch = TAB then Inr ((parse_save_field self)\<lparr>rd_state := START_FIELD\<rparr>)
               else if ch = LF \<or> ch = CR then Inr ((parse_save_field self)\<lparr>rd_state := EAT_CRNL\<rparr>)
               else and_then (parse_add_char self ch) (\<lambda>self'. Inr (self'\<lparr>rd_state := IN_FIELD\<rparr>)))
      | EAT_CRNL \<Rightarrow>
          (case c of
             None \<Rightarrow> Inr (self\<lparr>rd_state := START_RECORD\<rparr>)
           | Some ch \<Rightarrow> if ch = LF \<or> ch = CR then Inr self else Inl CsvError))"

text \<open>One line of input: its characters, then the end-of-line mark.\<close>

fun parse_line :: "reader \<Rightarrow> string \<Rightarrow> error + reader" where
  "parse_line self [] = parse_process_char self None"
| "parse_line self (c # cs) =
     (case parse_process_char self (Some c) of
        Inl e \<Rightarrow> Inl e
      | Inr self' \<Rightarrow> parse_line self' cs)"

text \<open>
  All the rows that iterating over the reader gives. A row is complete when the state
  machine is back in \<open>START_RECORD\<close> at the end of a line; otherwise the next line goes
  on with it. When the input ends inside a quoted field, what has been read is the last
  row.
\<close>

fun reader_rows :: "reader \<Rightarrow> string list \<Rightarrow> error + string list list" where
  "reader_rows self [] =
     (if rd_field self \<noteq> [] \<or> rd_state self = IN_QUOTED_FIELD
      then Inr [rd_fields (parse_save_field self)] else Inr [])"
| "reader_rows self (l # ls) =
     (case parse_line self l of
        Inl e \<Rightarrow> Inl e
      | Inr self' \<Rightarrow>
          if rd_state self' = START_RECORD
          then and_then (reader_rows parse_reset ls) (\<lambda>rows. Inr (rd_fields self' # rows))
          else reader_rows self' ls)"

definition csv_reader :: "string \<Rightarrow> error + string list list" where
  "csv_reader text = reader_rows parse_reset (readlines text)"

subsection \<open>Loading and writing a table\<close>

text \<open>
  \<^verbatim>\<open>_load_table\<close>: the first row is the header (\<^verbatim>\<open>next(reader)\<close> raises
  \<^verbatim>\<open>StopIteration\<close> on an empty file), every other row is zipped with it.
\<close>

definition load_table :: "string \<Rightarrow> resources \<Rightarrow> error + str_dict list" where
  "load_table fname fs =
     (case fs fname of
        None \<Rightarrow> Inl (FileNotFoundError fname)
      | Some text \<Rightarrow>
          (case csv_reader text of
             Inl e \<Rightarrow> Inl e
           | Inr [] \<Rightarrow> Inl StopIteration
           | Inr (header # rows) \<Rightarrow> Inr (map (dict_zip header) rows)))"

text \<open>\<^verbatim>\<open>mapping_sort_key\<close>: the seven subscripts are evaluated in this order.\<close>

type_synonym sort_key = "string \<times> string \<times> string \<times> string \<times> string \<times> string \<times> string"

definition mapping_sort_key :: "str_dict \<Rightarrow> error + sort_key" where
  "mapping_sort_key prediction =
     and_then (getitem prediction ''source prefix'') (\<lambda>k1.
     and_then (getitem prediction ''source identifier'') (\<lambda>k2.
     and_then (getitem prediction ''relation'') (\<lambda>k3.
     and_then (getitem prediction ''target prefix'') (\<lambda>k4.
     and_then (getitem prediction ''target identifier'') (\<lambda>k5.
     and_then (getitem prediction ''type'') (\<lambda>k6.
     and_then (getitem prediction ''source'') (\<lambda>k7.
       Inr (k1, k2, k3, k4, k5, k6, k7))))))))"

text \<open>
  \<^verbatim>\<open>sorted(xs, key=f)\<close>: the keys of all elements are computed first, in order, then the
  elements are sorted by key; the sort is stable.
\<close>

definition sorted_key :: "('a \<Rightarrow> error + 'k::linorder) \<Rightarrow> 'a list \<Rightarrow> error + 'a list" where
  "sorted_key f xs =
     and_then (traverse (\<lambda>x. and_then (f x) (\<lambda>k. Inr (k, x))) xs)
       (\<lambda>kxs. Inr (map snd (sort_key fst kxs)))"

text \<open>\<^verbatim>\<open>print(*values, sep="\t", file=file)\<close>.\<close>

fun join :: "string \<Rightarrow> string list \<Rightarrow> string" where
  "join sep [] = []"
| "join sep [v] = v"
| "join sep (v # w # vs) = v @ sep @ join sep (w # vs)"

definition print_line :: "string list \<Rightarrow> string" where
  "print_line vs = join [TAB] vs @ [LF]"

text \<open>The two modes the module opens a file for writing with: \<^verbatim>\<open>"w"\<close> and \<^verbatim>\<open>"a"\<close>.\<close>

datatype mode = W | A

definition open_for_writing :: "string \<Rightarrow> mode \<Rightarrow> resources \<Rightarrow> string" where
  "open_for_writing path mode fs =
     (case mode of W \<Rightarrow> [] | A \<Rightarrow> (case fs path of None \<Rightarrow> [] | Some old \<Rightarrow> old))"

text \<open>
  \<^verbatim>\<open>_write_helper\<close>: the records are sorted before the file is opened; in mode
  \<^verbatim>\<open>"w"\<close> the header line comes first; every record gives one line with its values in
  header order.
\<close>

definition write_helper ::
  "string list \<Rightarrow> str_dict list \<Rightarrow> string \<Rightarrow> mode \<Rightarrow> resources \<Rightarrow> error + resources" where
  "write_helper header lod path mode fs =
     and_then (sorted_key mapping_sort_key lod) (\<lambda>lod'.
     and_then (traverse (\<lambda>line. traverse (getitem line) header) lod') (\<lambda>rows.
       Inr (fs(path \<mapsto>
         open_for_writing path mode fs
         @ (case mode of W \<Rightarrow> print_line header | A \<Rightarrow> [])
         @ concat (map print_line rows)))))"

section \<open>The four tables\<close>

text \<open>
  Modelled from the spec: \<^verbatim>\<open>RESOURCE_PATH\<close> is defined in \<^verbatim>\<open>biomappings.utils\<close>, which
  is outside the module translated here; the resource path resolver "given a file name,
  returns its full path within the configured resource directory". The store of the
  model is that directory, and the path of a file in it is its name.
\<close>

definition get_resource_file_path :: "string \<Rightarrow> string" where
  "get_resource_file_path fname = fname"

definition TRUE_MAPPINGS_PATH :: string where
  "TRUE_MAPPINGS_PATH = get_resource_file_path ''mappings.tsv''"

definition FALSE_MAPPINGS_PATH :: string where
  "FALSE_MAPPINGS_PATH = get_resource_file_path ''incorrect.tsv''"

definition UNSURE_PATH :: string where
  "UNSURE_PATH = get_resource_file_path ''unsure.tsv''"

definition PREDICTIONS_PATH :: string where
  "PREDICTIONS_PATH = get_resource_file_path ''predictions.tsv''"

text \<open>
  The operations take the store and return the new one. The flag \<^verbatim>\<open>sort\<close> of the
  append operations is called \<open>sort_after\<close>.
\<close>

subsection \<open>True mappings\<close>

definition load_mappings :: "resources \<Rightarrow> error + str_dict list" where
  "load_mappings fs = load_table TRUE_MAPPINGS_PATH fs"

definition write_true_mappings :: "str_dict list \<Rightarrow> resources \<Rightarrow> error + resources" where
  "write_true_mappings m fs = write_helper MAPPINGS_HEADER m TRUE_MAPPINGS_PATH W fs"

definition append_true_mappings :: "str_dict list \<Rightarrow> bool \<Rightarrow> resources \<Rightarrow> error + resources" where
  "append_true_mappings m sort_after fs =
     and_then (write_helper MAPPINGS_HEADER m TRUE_MAPPINGS_PATH A fs) (\<lambda>fs'.
       if sort_after then
         and_then (load_mappings fs') (\<lambda>loaded.
         and_then (sorted_key mapping_sort_key loaded) (\<lambda>s. write_true_mappings s fs'))
       else Inr fs')"

definition lint_true_mappings :: "resources \<Rightarrow> error + resources" where
  "lint_true_mappings fs =
     and_then (load_mappings fs) (\<lambda>loaded.
     and_then (sorted_key mapping_sort_key loaded) (\<lambda>s. write_true_mappings s fs))"

subsection \<open>False mappings\<close>

definition load_false_mappings :: "resources \<Rightarrow> error + str_dict list" where
  "load_false_mappings fs = load_table FALSE_MAPPINGS_PATH fs"

definition write_false_mappings :: "str_dict list \<Rightarrow> resources \<Rightarrow> error + resources" where
  "write_false_mappings m fs = write_helper MAPPINGS_HEADER m FALSE_MAPPINGS_PATH W fs"

definition append_false_mappings :: "str_dict list \<Rightarrow> bool \<Rightarrow> resources \<Rightarrow> error + resources" where
  "append_false_mappings m sort_after fs =
     and_then (write_helper MAPPINGS_HEADER m FALSE_MAPPINGS_PATH A fs) (\<lambda>fs'.
       if sort_after then
         and_then (load_false_mappings fs') (\<lambda>loaded.
         and_then (sorted_key mapping_sort_key loaded) (\<lambda>s. write_false_mappings s fs'))
       else Inr fs')"

definition lint_false_mappings :: "resources \<Rightarrow> error + resources" where
  "lint_false_mappings fs =
     and_then (load_false_mappings fs) (\<lambda>loaded.
     and_then (sorted_key mapping_sort_key loaded) (\<lambda>s. write_false_mappings s fs))"

subsection \<open>Unsure mappings\<close>

definition load_unsure :: "resources \<Rightarrow> error + str_dict list" where
  "load_unsure fs = load_table UNSURE_PATH fs"

definition write_unsure_mappings :: "str_dict list \<Rightarrow> resources \<Rightarrow> error + resources" where
  "write_unsure_mappings m fs = write_helper MAPPINGS_HEADER m UNSURE_PATH W fs"

definition append_unsure_mappings :: "str_dict list \<Rightarrow> bool \<Rightarrow> resources \<Rightarrow> error + resources" where
  "append_unsure_mappings m sort_after fs =
     and_then (write_helper MAPPINGS_HEADER m UNSURE_PATH A fs) (\<lambda>fs'.
       if sort_after then
         and_then (load_unsure fs') (\<lambda>loaded.
         and_then (sorted_key mapping_sort_key loaded) (\<lambda>s. write_unsure_mappings s fs'))
       else Inr fs')"

definition lint_unsure_mappings :: "resources \<Rightarrow> error + resources" where
  "lint_unsure_mappings fs =
     and_then (load_unsure fs) (\<lambda>loaded.
     and_then (sorted_key mapping_sort_key loaded) (\<lambda>s. write_unsure_mappings s fs))"

subsection \<open>Predictions\<close>

definition load_predictions :: "resources \<Rightarrow> error + str_dict list" where
  "load_predictions fs = load_table PREDICTIONS_PATH fs"

definition write_predictions :: "str_dict list \<Rightarrow> resources \<Rightarrow> error + resources" where
  "write_predictions m fs = write_helper PREDICTIONS_HEADER m PREDICTIONS_PATH W fs"

text \<open>
  \<^verbatim>\<open>get_canonical_tuple\<close> is imported from \<^verbatim>\<open>biomappings.utils\<close>, which is outside
  the module translated here: \<open>append_predictions\<close> takes it as its first argument. The set
  comprehension loads the three tables in this order and then computes the key of every
  record. The generator over the incoming records is consumed by the \<^verbatim>\<open>sorted\<close> call of
  \<^verbatim>\<open>_write_helper\<close>, before any sort key is computed.
\<close>

definition existing_mappings ::
  "(str_dict \<Rightarrow> error + 'k) \<Rightarrow> resources \<Rightarrow> error + 'k set" where
  "existing_mappings get_canonical_tuple fs =
     and_then (load_mappings fs) (\<lambda>true_rows.
     and_then (load_false_mappings fs) (\<lambda>false_rows.
     and_then (load_predictions fs) (\<lambda>prediction_rows.
     and_then (traverse get_canonical_tuple (true_rows @ false_rows @ prediction_rows))
       (\<lambda>keys. Inr (set keys)))))"

definition not_in_existing ::
  "(str_dict \<Rightarrow> error + 'k) \<Rightarrow> 'k set \<Rightarrow> str_dict list \<Rightarrow> error + str_dict list" where
  "not_in_existing get_canonical_tuple existing mappings =
     and_then (traverse (\<lambda>mapping. and_then (get_canonical_tuple mapping) (\<lambda>k. Inr (k, mapping)))
                 mappings)
       (\<lambda>keyed. Inr (map snd (filter (\<lambda>(k, mapping). k \<notin> existing) keyed)))"

definition append_predictions ::
  "(str_dict \<Rightarrow> error + 'k) \<Rightarrow> str_dict list \<Rightarrow> bool \<Rightarrow> bool \<Rightarrow> resources \<Rightarrow> error + resources"
  where
  "append_predictions get_canonical_tuple mappings deduplicate sort_after fs =
     and_then
       (if deduplicate then
          and_then (existing_mappings get_canonical_tuple fs) (\<lambda>existing.
            not_in_existing get_canonical_tuple existing mappings)
        else Inr mappings)
       (\<lambda>mappings'.
     and_then (write_helper PREDICTIONS_HEADER mappings' PREDICTIONS_PATH A fs) (\<lambda>fs'.
       if sort_after then
         and_then (load_predictions fs') (\<lambda>loaded.
         and_then (sorted_key mapping_sort_key loaded) (\<lambda>s. write_predictions s fs'))
       else Inr fs'))"

definition lint_predictions :: "resources \<Rightarrow> error + resources" where
  "lint_predictions fs =
     and_then (load_predictions fs) (\<lambda>loaded.
     and_then (sorted_key mapping_sort_key loaded) (\<lambda>s. write_predictions s fs))"

definition load_curators :: "resources \<Rightarrow> error + str_dict list" where
  "load_curators fs = load_table (get_resource_file_path ''curators.tsv'') fs"

subsection \<open>Filtering the predictions\<close>

type_synonym custom_filter = "string \<rightharpoonup> (string \<rightharpoonup> (string \<rightharpoonup> string))"

text \<open>\<^verbatim>\<open>d.get(k, {})\<close> and \<^verbatim>\<open>d.get(k)\<close>; the latter is \<open>d k\<close>, with \<open>None\<close> for Python's
  \<^verbatim>\<open>None\<close>.\<close>

definition get_or_empty :: "(string \<rightharpoonup> (string \<rightharpoonup> 'v)) \<Rightarrow> string \<Rightarrow> (string \<rightharpoonup> 'v)" where
  "get_or_empty d k = (case d k of None \<Rightarrow> Map.empty | Some v \<Rightarrow> v)"

definition check_filter :: "str_dict \<Rightarrow> custom_filter \<Rightarrow> error + bool" where
  "check_filter prediction custom_filter =
     and_then (getitem prediction ''source prefix'') (\<lambda>source_prefix.
     and_then (getitem prediction ''target prefix'') (\<lambda>target_prefix.
     and_then (getitem prediction ''source identifier'') (\<lambda>source_id.
     and_then (getitem prediction ''target identifier'') (\<lambda>target_id.
       Inr (Some target_id \<noteq>
            get_or_empty (get_or_empty custom_filter source_prefix) target_prefix source_id)))))"

definition filter_predictions :: "custom_filter \<Rightarrow> resources \<Rightarrow> error + resources" where
  "filter_predictions custom_filter fs =
     and_then (load_predictions fs) (\<lambda>predictions.
     and_then (traverse (\<lambda>prediction.
                 and_then (check_filter prediction custom_filter) (\<lambda>keep. Inr (keep, prediction)))
               predictions) (\<lambda>checked.
       write_predictions (map snd (filter fst checked)) fs))"

section \<open>The canonicalization utility\<close>

text \<open>
  Modelled from the spec: \<^verbatim>\<open>get_canonical_tuple\<close> is defined in \<^verbatim>\<open>biomappings.utils\<close>,
  which is outside the module translated here. The spec: "Canonical key: a tuple (source
  prefix, source id, relation, target prefix, target id, type, source) derived from a
  record"; "given any record (mapping or prediction dict), returns the 7-tuple canonical
  key". The columns are read by subscript, so a missing one raises \<^verbatim>\<open>KeyError\<close>.
\<close>

definition KEY_COLUMNS :: "string list" where
  "KEY_COLUMNS =
     [''source prefix'', ''source identifier'', ''relation'', ''target prefix'',
      ''target identifier'', ''type'', ''source'']"

definition get_canonical_tuple :: "str_dict \<Rightarrow> error + sort_key" where
  "get_canonical_tuple mapping =
     and_then (traverse (getitem mapping) KEY_COLUMNS) (\<lambda>vs.
       case vs of
         [a, b, c, d, e, f, g] \<Rightarrow> Inr (a, b, c, d, e, f, g)
       | _ \<Rightarrow> Inl TypeError)"

section \<open>The operations by table\<close>

text \<open>
  The module repeats load, write, append and lint for each table. To state a property
  once for all four, the operations are collected by table. The append of the
  predictions table is taken without deduplication here; with deduplication it is the
  same append of the records that survive.
\<close>

datatype table = TrueMappings | FalseMappings | Unsure | Predictions

fun path_of :: "table \<Rightarrow> string" where
  "path_of TrueMappings = TRUE_MAPPINGS_PATH"
| "path_of FalseMappings = FALSE_MAPPINGS_PATH"
| "path_of Unsure = UNSURE_PATH"
| "path_of Predictions = PREDICTIONS_PATH"

fun header_of :: "table \<Rightarrow> string list" where
  "header_of Predictions = PREDICTIONS_HEADER"
| "header_of _ = MAPPINGS_HEADER"

fun load_rows :: "table \<Rightarrow> resources \<Rightarrow> error + str_dict list" where
  "load_rows TrueMappings = load_mappings"
| "load_rows FalseMappings = load_false_mappings"
| "load_rows Unsure = load_unsure"
| "load_rows Predictions = load_predictions"

fun write_rows :: "table \<Rightarrow> str_dict list \<Rightarrow> resources \<Rightarrow> error + resources" where
  "write_rows TrueMappings = write_true_mappings"
| "write_rows FalseMappings = write_false_mappings"
| "write_rows Unsure = write_unsure_mappings"
| "write_rows Predictions = write_predictions"

fun append_rows :: "table \<Rightarrow> str_dict list \<Rightarrow> bool \<Rightarrow> resources \<Rightarrow> error + resources" where
  "append_rows TrueMappings = append_true_mappings"
| "append_rows FalseMappings = append_false_mappings"
| "append_rows Unsure = append_unsure_mappings"
| "append_rows Predictions = (\<lambda>m. append_predictions get_canonical_tuple m False)"

fun lint_rows :: "table \<Rightarrow> resources \<Rightarrow> error + resources" where
  "lint_rows TrueMappings = lint_true_mappings"
| "lint_rows FalseMappings = lint_false_mappings"
| "lint_rows Unsure = lint_unsure_mappings"
| "lint_rows Predictions = lint_predictions"

section \<open>Well-formed tables\<close>

text \<open>
  A table is a sequence of records of one schema, kept as a header line followed by one
  line per record. A value can be written as a field and read back when it holds no
  tab and no line end, does not begin with a double quote (the reader would take it for
  the start of a quoted field) and is within the reader's field size limit.
\<close>

definition plain :: "char \<Rightarrow> bool" where
  "plain c \<longleftrightarrow> c \<noteq> TAB \<and> c \<noteq> LF \<and> c \<noteq> CR"

definition tsv_safe :: "string \<Rightarrow> bool" where
  "tsv_safe v \<longleftrightarrow>
     list_all plain v \<and> (case v of [] \<Rightarrow> True | c # _ \<Rightarrow> c \<noteq> QUOTE) \<and> length v \<le> field_limit"

text \<open>A line of fields that is read back as the same fields: a single empty field would
  print as an empty line, which the reader takes for a row without fields.\<close>

definition printable_row :: "string list \<Rightarrow> bool" where
  "printable_row vs \<longleftrightarrow> list_all tsv_safe vs \<and> vs \<noteq> [] \<and> vs \<noteq> [[]]"

text \<open>A record that has every column of the header; one whose values can be written
  and read back; one of exactly the columns of the header.\<close>

definition has_columns :: "string list \<Rightarrow> str_dict \<Rightarrow> bool" where
  "has_columns header r \<longleftrightarrow> list_all (\<lambda>k. r k \<noteq> None) header"

definition row_ok :: "string list \<Rightarrow> str_dict \<Rightarrow> bool" where
  "row_ok header r \<longleftrightarrow> list_all (\<lambda>k. case r k of None \<Rightarrow> False | Some v \<Rightarrow> tsv_safe v) header"

definition rows_ok :: "string list \<Rightarrow> str_dict list \<Rightarrow> bool" where
  "rows_ok header rs \<longleftrightarrow> list_all (row_ok header) rs"

definition record_of :: "string list \<Rightarrow> str_dict \<Rightarrow> bool" where
  "record_of header r \<longleftrightarrow> row_ok header r \<and> dom r = set header"

text \<open>What is kept of a record in a table: its columns of the header.\<close>

definition stored :: "string list \<Rightarrow> str_dict \<Rightarrow> str_dict" where
  "stored header r = r |` set header"

text \<open>A header the table operations work with: it can be written and read back, its
  columns are distinct, and the key columns are among them.\<close>

definition schema :: "string list \<Rightarrow> bool" where
  "schema header \<longleftrightarrow>
     list_all tsv_safe header \<and> 2 \<le> length header \<and> distinct header \<and>
     list_all (\<lambda>k. k \<in> set header) KEY_COLUMNS"

text \<open>The values of a record in header order, and the text of a table.\<close>

definition row_values :: "string list \<Rightarrow> str_dict \<Rightarrow> string list" where
  "row_values header r = map (\<lambda>k. the (r k)) header"

definition rows_text :: "string list \<Rightarrow> str_dict list \<Rightarrow> string" where
  "rows_text header rs = concat (map (\<lambda>r. print_line (row_values header r)) rs)"

definition table_text :: "string list \<Rightarrow> str_dict list \<Rightarrow> string" where
  "table_text header rs = print_line header @ rows_text header rs"

text \<open>The store holds the table \<open>T\<close> with the records \<open>rs\<close>.\<close>

definition table_holds :: "table \<Rightarrow> str_dict list \<Rightarrow> resources \<Rightarrow> bool" where
  "table_holds T rs fs \<longleftrightarrow>
     fs (path_of T) = Some (table_text (header_of T) rs) \<and>
     list_all (record_of (header_of T)) rs"

text \<open>The canonical key of a record that has the seven key columns.\<close>

definition key_of :: "str_dict \<Rightarrow> sort_key" where
  "key_of r =
     (the (r ''source prefix''), the (r ''source identifier''), the (r ''relation''),
      the (r ''target prefix''), the (r ''target identifier''), the (r ''type''),
      the (r ''source''))"

text \<open>The filter excludes a record: it has an entry for the record's source prefix,
  target prefix and source identifier, and the entry is the record's target identifier.\<close>

definition excluded :: "custom_filter \<Rightarrow> str_dict \<Rightarrow> bool" where
  "excluded custom_filter r \<longleftrightarrow>
     (case custom_filter (the (r ''source prefix'')) of
        None \<Rightarrow> False
      | Some by_target \<Rightarrow>
          (case by_target (the (r ''target prefix'')) of
             None \<Rightarrow> False
           | Some by_source \<Rightarrow>
               by_source (the (r ''source identifier'')) = Some (the (r ''target identifier''))))"

section \<open>Example tables\<close>

text \<open>Records and a store on which the properties below are exercised.\<close>

definition example_mapping :: "string \<Rightarrow> str_dict" where
  "example_mapping prefix =
     dict_zip MAPPINGS_HEADER
       [prefix, ''1'', ''name 1'', ''skos:exactMatch'', ''t'', ''2'', ''name 2'', ''manual'',
        ''orcid:0000'']"

definition example_prediction :: "string \<Rightarrow> string \<Rightarrow> string \<Rightarrow> str_dict" where
  "example_prediction prefix name conf =
     dict_zip PREDICTIONS_HEADER
       [prefix, ''1'', name, ''skos:exactMatch'', ''t'', ''2'', ''name 2'', ''lexical'', conf,
        ''generator'']"

definition example_store :: resources where
  "example_store =
     [TRUE_MAPPINGS_PATH \<mapsto> table_text MAPPINGS_HEADER [example_mapping ''x''],
      FALSE_MAPPINGS_PATH \<mapsto> table_text MAPPINGS_HEADER [example_mapping ''f''],
      UNSURE_PATH \<mapsto> table_text MAPPINGS_HEADER [example_mapping ''u''],
      PREDICTIONS_PATH \<mapsto> table_text PREDICTIONS_HEADER [example_prediction ''p'' ''name 1'' ''0.9'']]"

text \<open>
  A filter that excludes the prediction of the example store; a batch of incoming
  predictions of which the first has the key of that prediction (with another name and
  confidence) and the second a new key; a batch of two predictions that share a new key.
\<close>

definition example_filter :: custom_filter where
  "example_filter = [''p'' \<mapsto> [''t'' \<mapsto> [''1'' \<mapsto> ''2'']]]"

definition example_batch :: "str_dict list" where
  "example_batch =
     [example_prediction ''p'' ''other name'' ''0.5'', example_prediction ''a'' ''name 1'' ''0.5'']"

definition example_pair :: "str_dict list" where
  "example_pair =
     [example_prediction ''a'' ''name 1'' ''0.5'', example_prediction ''a'' ''other name'' ''0.9'']"

text \<open>
  A true-mappings file whose only row ends with the field \<^verbatim>\<open>"""x"\<close>, which the reader
  takes for the value \<^verbatim>\<open>"x\<close>; the file a first lint makes of it, and the file a second
  lint makes of that one.
\<close>

definition quoted_row :: "string \<Rightarrow> string list" where
  "quoted_row last_field = [''a'', ''1'', ''n'', ''r'', ''b'', ''2'', ''m'', ''t'', last_field]"

definition quoted_file :: "string \<Rightarrow> string" where
  "quoted_file last_field = print_line MAPPINGS_HEADER @ print_line (quoted_row last_field)"

definition quoted_store :: "string \<Rightarrow> resources" where
  "quoted_store last_field = [TRUE_MAPPINGS_PATH \<mapsto> quoted_file last_field]"

text \<open>A curators file whose header has two fields and whose rows have one and three.\<close>

definition ragged_file :: string where
  "ragged_file =
     [CHR ''a'', TAB, CHR ''b'', LF,
      CHR ''1'', LF,
      CHR ''1'', TAB, CHR ''2'', TAB, CHR ''3'', LF]"

text \<open>
  A true-mappings file with two rows that differ in the last field only; a predictions
  row with a given target identifier and source, the file and the store that hold it;
  a filter with the entry \<^verbatim>\<open>B\<close> for that row; a store whose true-mappings table holds the
  row with the source \<^verbatim>\<open>s\<close> and whose other tables are empty.
\<close>

definition two_row_file :: "string \<Rightarrow> string \<Rightarrow> string" where
  "two_row_file v w =
     print_line MAPPINGS_HEADER @ print_line (quoted_row v) @ print_line (quoted_row w)"

definition two_row_store :: "string \<Rightarrow> string \<Rightarrow> resources" where
  "two_row_store v w = [TRUE_MAPPINGS_PATH \<mapsto> two_row_file v w]"

definition prediction_row :: "string \<Rightarrow> string \<Rightarrow> string list" where
  "prediction_row tid src =
     [''a'', ''1'', ''n'', ''r'', ''b'', tid, ''m'', ''t'', ''c'', src]"

definition prediction_file :: "string \<Rightarrow> string \<Rightarrow> string" where
  "prediction_file tid src =
     print_line PREDICTIONS_HEADER @ print_line (prediction_row tid src)"

definition prediction_store :: "string \<Rightarrow> string \<Rightarrow> resources" where
  "prediction_store tid src = [PREDICTIONS_PATH \<mapsto> prediction_file tid src]"

definition identifier_filter :: custom_filter where
  "identifier_filter = [''a'' \<mapsto> [''b'' \<mapsto> [''1'' \<mapsto> ''B'']]]"

definition known_store :: resources where
  "known_store =
     [TRUE_MAPPINGS_PATH \<mapsto> quoted_file ''s'',
      FALSE_MAPPINGS_PATH \<mapsto> table_text MAPPINGS_HEADER [],
      PREDICTIONS_PATH \<mapsto> table_text PREDICTIONS_HEADER []]"

text \<open>A predictions table that is not sorted and has two records with one key.\<close>

definition example_unsorted :: "str_dict list" where
  "example_unsorted =
     [example_prediction ''p'' ''name 1'' ''0.9'', example_prediction ''a'' ''name 1'' ''0.5'',
      example_prediction ''p'' ''other name'' ''0.5'']"

definition unsorted_store :: resources where
  "unsorted_store = [PREDICTIONS_PATH \<mapsto> table_text PREDICTIONS_HEADER example_unsorted]"

section \<open>Properties\<close>

subsection \<open>Reading back what was printed\<close>

lemma universal_newlines_id: "CR \<notin> set t \<Longrightarrow> universal_newlines t = t"
  by (induction t rule: universal_newlines.induct) auto

lemma lines_from_line:
  "LF \<notin> set b \<Longrightarrow> lines_from acc (b @ LF # rest) = (acc @ b @ [LF]) # lines_from [] rest"
  by (induction b arbitrary: acc) auto

lemma lines_from_concat:
  "\<forall>b\<in>set bs. LF \<notin> set b \<Longrightarrow>
   lines_from [] (concat (map (\<lambda>b. b @ [LF]) bs)) = map (\<lambda>b. b @ [LF]) bs"
  by (induction bs) (auto simp: lines_from_line)

lemma parse_line_in_field:
  "list_all plain v \<Longrightarrow> length f + length v \<le> field_limit \<Longrightarrow>
   parse_line \<lparr>rd_fields = fs, rd_field = f, rd_state = IN_FIELD\<rparr> (v @ rest)
   = parse_line \<lparr>rd_fields = fs, rd_field = f @ v, rd_state = IN_FIELD\<rparr> rest"
proof (induction v arbitrary: f)
  case Nil
  then show ?case by simp
next
  case (Cons c v)
  then have step: "parse_process_char \<lparr>rd_fields = fs, rd_field = f, rd_state = IN_FIELD\<rparr> (Some c)
     = Inr \<lparr>rd_fields = fs, rd_field = f @ [c], rd_state = IN_FIELD\<rparr>"
    by (simp add: parse_process_char_def parse_add_char_def plain_def)
  have "parse_line \<lparr>rd_fields = fs, rd_field = f @ [c], rd_state = IN_FIELD\<rparr> (v @ rest)
        = parse_line \<lparr>rd_fields = fs, rd_field = (f @ [c]) @ v, rd_state = IN_FIELD\<rparr> rest"
    using Cons.prems by (intro Cons.IH) auto
  then show ?case using step by simp
qed

lemma parse_line_start_field:
  assumes "s = START_FIELD \<or> s = START_RECORD" and "tsv_safe v" and "v \<noteq> []"
  shows "parse_line \<lparr>rd_fields = fs, rd_field = [], rd_state = s\<rparr> (v @ rest)
       = parse_line \<lparr>rd_fields = fs, rd_field = v, rd_state = IN_FIELD\<rparr> rest"
proof -
  obtain c w where v: "v = c # w" using assms(3) by (cases v) auto
  have c: "c \<noteq> TAB" "c \<noteq> LF" "c \<noteq> CR" "c \<noteq> QUOTE" and w: "list_all plain w"
    and len: "Suc (length w) \<le> field_limit"
    using assms(2) by (auto simp: v tsv_safe_def plain_def list_all_iff)
  have fl: "\<not> field_limit \<le> 0" by (simp add: field_limit_def)
  have step: "parse_process_char \<lparr>rd_fields = fs, rd_field = [], rd_state = s\<rparr> (Some c)
     = Inr \<lparr>rd_fields = fs, rd_field = [c], rd_state = IN_FIELD\<rparr>"
    using assms(1) c fl
    by (auto simp: parse_process_char_def start_field_def parse_add_char_def and_then_def)
  have "parse_line \<lparr>rd_fields = fs, rd_field = [c], rd_state = IN_FIELD\<rparr> (w @ rest)
      = parse_line \<lparr>rd_fields = fs, rd_field = [c] @ w, rd_state = IN_FIELD\<rparr> rest"
    using w len by (intro parse_line_in_field) auto
  then show ?thesis using step by (simp add: v)
qed

text \<open>One field and the separator that follows it.\<close>

lemma parse_line_field_tab:
  assumes "s = START_FIELD \<or> s = START_RECORD" and "tsv_safe v"
  shows "parse_line \<lparr>rd_fields = fs, rd_field = [], rd_state = s\<rparr> (v @ TAB # rest)
       = parse_line \<lparr>rd_fields = fs @ [v], rd_field = [], rd_state = START_FIELD\<rparr> rest"
proof (cases "v = []")
  case True
  have "TAB \<noteq> LF" "TAB \<noteq> CR" "TAB \<noteq> QUOTE" by (simp_all add: TAB_def LF_def CR_def QUOTE_def)
  then show ?thesis using assms(1) True
    by (auto simp: parse_process_char_def start_field_def parse_save_field_def)
next
  case False
  have "TAB \<noteq> LF" "TAB \<noteq> CR" by (simp_all add: TAB_def LF_def CR_def)
  then have "parse_line \<lparr>rd_fields = fs, rd_field = v, rd_state = IN_FIELD\<rparr> (TAB # rest)
      = parse_line \<lparr>rd_fields = fs @ [v], rd_field = [], rd_state = START_FIELD\<rparr> rest"
    by (simp add: parse_process_char_def parse_save_field_def)
  then show ?thesis using parse_line_start_field [OF assms(1,2) False] by simp
qed

text \<open>The last field of a line and the line end.\<close>

lemma parse_line_field_end:
  assumes "tsv_safe v" and "s = START_FIELD \<or> (s = START_RECORD \<and> v \<noteq> [])"
  shows "parse_line \<lparr>rd_fields = fs, rd_field = [], rd_state = s\<rparr> (v @ [LF])
       = Inr \<lparr>rd_fields = fs @ [v], rd_field = [], rd_state = START_RECORD\<rparr>"
proof (cases "v = []")
  case True
  then show ?thesis using assms(2)
    by (auto simp: parse_process_char_def start_field_def parse_save_field_def)
next
  case False
  have "parse_line \<lparr>rd_fields = fs, rd_field = v, rd_state = IN_FIELD\<rparr> [LF]
      = Inr \<lparr>rd_fields = fs @ [v], rd_field = [], rd_state = START_RECORD\<rparr>"
    by (simp add: parse_process_char_def parse_save_field_def)
  moreover have "s = START_FIELD \<or> s = START_RECORD" using assms(2) by auto
  ultimately show ?thesis using parse_line_start_field [OF _ assms(1) False, of s fs "[LF]"] by simp
qed

lemma parse_line_fields:
  "list_all tsv_safe (v # vs) \<Longrightarrow>
   parse_line \<lparr>rd_fields = fs, rd_field = [], rd_state = START_FIELD\<rparr> (print_line (v # vs))
   = Inr \<lparr>rd_fields = fs @ v # vs, rd_field = [], rd_state = START_RECORD\<rparr>"
proof (induction vs arbitrary: v fs)
  case Nil
  then show ?case by (simp add: print_line_def parse_line_field_end)
next
  case (Cons w ws)
  have "parse_line \<lparr>rd_fields = fs, rd_field = [], rd_state = START_FIELD\<rparr>
          (v @ TAB # print_line (w # ws))
        = parse_line \<lparr>rd_fields = fs @ [v], rd_field = [], rd_state = START_FIELD\<rparr>
          (print_line (w # ws))"
    using Cons.prems by (intro parse_line_field_tab) auto
  also have "\<dots> = Inr \<lparr>rd_fields = (fs @ [v]) @ w # ws, rd_field = [], rd_state = START_RECORD\<rparr>"
    using Cons.prems by (intro Cons.IH) auto
  finally show ?case by (simp add: print_line_def)
qed

lemma parse_line_print_line:
  assumes "printable_row vs"
  shows "parse_line parse_reset (print_line vs)
       = Inr \<lparr>rd_fields = vs, rd_field = [], rd_state = START_RECORD\<rparr>"
proof -
  obtain v ws where vs: "vs = v # ws" using assms by (cases vs) (auto simp: printable_row_def)
  have safe: "tsv_safe v" "list_all tsv_safe ws" using assms by (auto simp: vs printable_row_def)
  show ?thesis
  proof (cases ws)
    case Nil
    then have "v \<noteq> []" using assms by (simp add: vs printable_row_def)
    then show ?thesis using safe(1)
      by (simp add: vs Nil parse_reset_def print_line_def parse_line_field_end)
  next
    case (Cons w ws')
    have "parse_line \<lparr>rd_fields = [], rd_field = [], rd_state = START_RECORD\<rparr>
            (v @ TAB # print_line (w # ws'))
        = parse_line \<lparr>rd_fields = [] @ [v], rd_field = [], rd_state = START_FIELD\<rparr>
            (print_line (w # ws'))"
      using safe(1) by (intro parse_line_field_tab) auto
    also have "\<dots> = Inr \<lparr>rd_fields = ([] @ [v]) @ w # ws', rd_field = [], rd_state = START_RECORD\<rparr>"
      using safe(2) Cons by (intro parse_line_fields) auto
    finally show ?thesis by (simp add: vs Cons parse_reset_def print_line_def)
  qed
qed

lemma reader_rows_print_lines:
  "list_all printable_row rows \<Longrightarrow>
   reader_rows parse_reset (map print_line rows) = Inr rows"
proof (induction rows)
  case Nil
  then show ?case by (simp add: parse_reset_def)
next
  case (Cons vs rows)
  then show ?case by (simp add: parse_line_print_line and_then_def)
qed


lemma tsv_safe_no_line_end: "tsv_safe v \<Longrightarrow> LF \<notin> set v \<and> CR \<notin> set v"
  by (auto simp: tsv_safe_def plain_def list_all_iff)

lemma set_join: "set (join sep vs) \<subseteq> set sep \<union> \<Union> (set ` set vs)"
  by (induction sep vs rule: join.induct) auto

lemma join_no_line_end:
  assumes "list_all tsv_safe vs"
  shows "LF \<notin> set (join [TAB] vs) \<and> CR \<notin> set (join [TAB] vs)"
proof -
  have "TAB \<noteq> LF" "TAB \<noteq> CR" by (simp_all add: TAB_def LF_def CR_def)
  moreover have "\<forall>v\<in>set vs. LF \<notin> set v \<and> CR \<notin> set v"
    using assms tsv_safe_no_line_end by (auto simp: list_all_iff)
  ultimately show ?thesis using set_join [of "[TAB]" vs] by auto
qed

lemma concat_print_line:
  "concat (map print_line rows) = concat (map (\<lambda>b. b @ [LF]) (map (join [TAB]) rows))"
  by (induction rows) (simp_all add: print_line_def)

lemma readlines_print_lines:
  assumes "list_all (list_all tsv_safe) rows"
  shows "readlines (concat (map print_line rows)) = map print_line rows"
proof -
  have nl: "\<forall>b\<in>set (map (join [TAB]) rows). LF \<notin> set b"
    using assms join_no_line_end by (auto simp: list_all_iff)
  have "CR \<notin> set (concat (map print_line rows))"
    using assms join_no_line_end by (auto simp: list_all_iff print_line_def LF_def CR_def)
  then have "readlines (concat (map print_line rows))
      = lines_from [] (concat (map (\<lambda>b. b @ [LF]) (map (join [TAB]) rows)))"
    by (simp add: readlines_def universal_newlines_id concat_print_line)
  also have "\<dots> = map (\<lambda>b. b @ [LF]) (map (join [TAB]) rows)"
    using nl by (rule lines_from_concat)
  finally show ?thesis by (simp add: print_line_def comp_def)
qed

lemma csv_reader_print_lines:
  assumes "list_all printable_row rows"
  shows "csv_reader (concat (map print_line rows)) = Inr rows"
proof -
  have "list_all (list_all tsv_safe) rows"
    using assms by (auto simp: list_all_iff printable_row_def)
  then show ?thesis
    using assms by (simp add: csv_reader_def readlines_print_lines reader_rows_print_lines)
qed

text \<open>Loading a file of printed lines: the first is the header, the others are zipped with
  it, whatever their numbers of fields.\<close>

lemma load_table_print_lines:
  assumes "fs fname = Some (concat (map print_line (header # rows)))"
    and "list_all printable_row (header # rows)"
  shows "load_table fname fs = Inr (map (dict_zip header) rows)"
  using assms(1) csv_reader_print_lines [OF assms(2)]
  by (simp add: load_table_def del: concat.simps list.map)

lemma dict_zip_row_values:
  assumes "\<forall>k\<in>set header. k \<in> dom r"
  shows "dict_zip header (row_values header r) = r |` set header"
proof
  fix k
  have "map_of (rev (zip header (map (\<lambda>k. the (r k)) header))) k
      = map_of (zip (rev header) (map (\<lambda>k. the (r k)) (rev header))) k"
    by (metis zip_rev rev_map length_map)
  also have "\<dots> = (if k \<in> set header then Some (the (r k)) else None)"
    by (simp add: map_of_zip_map)
  finally show "dict_zip header (row_values header r) k = (r |` set header) k"
    using assms by (auto simp: dict_zip_def row_values_def map_upds_def restrict_map_def)
qed

lemma schema_printable: "schema header \<Longrightarrow> printable_row header"
  by (auto simp: schema_def printable_row_def)

lemma row_ok_printable:
  assumes "2 \<le> length header" and "row_ok header r"
  shows "printable_row (row_values header r)"
proof -
  have "list_all tsv_safe (row_values header r)"
    using assms(2) by (auto simp: row_ok_def row_values_def list_all_iff split: option.splits)
  moreover have "2 \<le> length (row_values header r)"
    using assms(1) by (simp add: row_values_def)
  ultimately show ?thesis by (auto simp: printable_row_def)
qed

lemma row_ok_dom: "row_ok header r \<Longrightarrow> \<forall>k\<in>set header. k \<in> dom r"
  by (auto simp: row_ok_def list_all_iff split: option.splits)

lemma table_text_print_lines:
  "table_text header rs = concat (map print_line (header # map (row_values header) rs))"
  by (simp add: table_text_def rows_text_def comp_def)

lemma load_table_table_text:
  assumes "fs fname = Some (table_text header rs)"
    and "schema header" and "rows_ok header rs"
  shows "load_table fname fs = Inr (map (stored header) rs)"
proof -
  have "2 \<le> length header" using assms(2) by (simp add: schema_def)
  then have "list_all printable_row (header # map (row_values header) rs)"
    using assms(2,3) schema_printable row_ok_printable
    by (auto simp: rows_ok_def list_all_iff)
  then have "load_table fname fs = Inr (map (dict_zip header) (map (row_values header) rs))"
    using assms(1) unfolding table_text_print_lines by (rule load_table_print_lines [rotated])
  moreover have "map (dict_zip header) (map (row_values header) rs) = map (stored header) rs"
    using assms(3) row_ok_dom by (auto simp: rows_ok_def list_all_iff dict_zip_row_values stored_def)
  ultimately show ?thesis by simp
qed

subsection \<open>Typed tuple adapters\<close>

lemma MappingTuple_round_trip:
  "MappingTuple_from_dict (MappingTuple_as_dict x) = Inr x"
  by (simp add: MappingTuple_from_dict_def MappingTuple_as_dict_def MappingTuple_iter_def
      MAPPINGS_HEADER_def dict_zip_def getitem_def and_then_def)

lemma PredictionTuple_round_trip:
  "PredictionTuple_from_dict (PredictionTuple_as_dict x) = Inr x"
  by (simp add: PredictionTuple_from_dict_def PredictionTuple_as_dict_def
      PredictionTuple_iter_def PREDICTIONS_HEADER_def dict_zip_def getitem_def and_then_def)

text \<open>
  Claim C6. For every typed tuple \<open>x\<close> of either schema, converting it to a record
  dictionary and back returns exactly \<open>x\<close>: \<^verbatim>\<open>from_dict(as_dict(x)) == x\<close>, and the
  conversion back does not raise.
\<close>

theorem C6_tuple_round_trip:
  "MappingTuple_from_dict (MappingTuple_as_dict (x :: 'v MappingTuple)) = Inr x \<and>
   PredictionTuple_from_dict (PredictionTuple_as_dict (y :: 'w PredictionTuple)) = Inr y"
  by (simp add: MappingTuple_round_trip PredictionTuple_round_trip)

subsection \<open>Exceptions and sorting\<close>

lemma traverse_map:
  "\<forall>x\<in>set xs. f x = Inr (g x) \<Longrightarrow> traverse f xs = Inr (map g xs)"
  by (induction xs) auto

lemma traverse_Inr:
  "traverse f xs = Inr ys \<Longrightarrow> list_all2 (\<lambda>x y. f x = Inr y) xs ys"
  by (induction xs arbitrary: ys) (auto split: sum.splits)

lemma insort_key_decorated:
  "\<forall>p\<in>set kys. fst p = f (snd p) \<Longrightarrow>
   map snd (insort_key fst (f x, x) kys) = insort_key f x (map snd kys)"
  by (induction kys) auto

lemma sort_key_decorated:
  "map snd (sort_key fst (map (\<lambda>x. (f x, x)) xs)) = sort_key f xs"
proof (induction xs)
  case Nil
  then show ?case by simp
next
  case (Cons x xs)
  have "\<forall>p\<in>set (sort_key fst (map (\<lambda>x. (f x, x)) xs)). fst p = f (snd p)"
    by auto
  then show ?case using Cons by (simp add: insort_key_decorated)
qed

lemma sorted_key_total:
  assumes "\<forall>x\<in>set xs. f x = Inr (g x)"
  shows "sorted_key f xs = Inr (sort_key g xs)"
proof -
  have "traverse (\<lambda>x. and_then (f x) (\<lambda>k. Inr (k, x))) xs = Inr (map (\<lambda>x. (g x, x)) xs)"
    using assms by (intro traverse_map) (simp add: and_then_def)
  then show ?thesis by (simp add: sorted_key_def and_then_def sort_key_decorated)
qed

lemma insort_key_map:
  "\<forall>x. f (g x) = f x \<Longrightarrow> insort_key f (g x) (map g ys) = map g (insort_key f x ys)"
  by (induction ys) auto

lemma sort_key_map:
  "\<forall>x. f (g x) = f x \<Longrightarrow> sort_key f (map g xs) = map g (sort_key f xs)"
  by (induction xs) (simp_all add: insort_key_map)

lemma sort_key_sort_key: "sort_key f (sort_key f xs) = sort_key f xs"
  by (simp add: sort_key_id_if_sorted)

text \<open>Sorting is stable: a sorted tail may be sorted again with the rest.\<close>

lemma sort_key_append_sorted:
  "sort_key f (xs @ sort_key f ys) = sort_key f (xs @ ys)"
proof (rule properties_for_sort_key)
  show "mset (sort_key f (xs @ ys)) = mset (xs @ sort_key f ys)" by simp
next
  fix k
  have "filter (\<lambda>x. f k = f x) (sort_key f (xs @ ys)) = filter (\<lambda>x. f x = f k) (sort_key f (xs @ ys))"
    by (rule filter_cong) auto
  also have "\<dots> = filter (\<lambda>x. f x = f k) (xs @ ys)" by (rule sort_key_stable)
  also have "\<dots> = filter (\<lambda>x. f x = f k) xs @ filter (\<lambda>x. f x = f k) (sort_key f ys)"
    by (simp add: sort_key_stable)
  also have "\<dots> = filter (\<lambda>x. f k = f x) (xs @ sort_key f ys)"
    by (simp add: eq_commute [of "f k"])
  finally show "filter (\<lambda>x. f k = f x) (sort_key f (xs @ ys))
      = filter (\<lambda>x. f k = f x) (xs @ sort_key f ys)" .
next
  show "sorted (map f (sort_key f (xs @ ys)))" by simp
qed

subsection \<open>Columns and keys\<close>

lemma getitem_Some: "r k = Some v \<Longrightarrow> getitem r k = Inr v"
  by (simp add: getitem_def)

lemma has_columns_getitem:
  "has_columns header r \<Longrightarrow> k \<in> set header \<Longrightarrow> getitem r k = Inr (the (r k))"
  by (auto simp: has_columns_def list_all_iff getitem_def split: option.splits)

lemma has_columns_row_values:
  "has_columns header r \<Longrightarrow> traverse (getitem r) header = Inr (row_values header r)"
  unfolding row_values_def by (intro traverse_map) (simp add: has_columns_getitem)

lemma mapping_sort_key_total:
  assumes "has_columns KEY_COLUMNS r"
  shows "mapping_sort_key r = Inr (key_of r)"
proof -
  have "\<forall>k\<in>set KEY_COLUMNS. getitem r k = Inr (the (r k))"
    using assms by (simp add: has_columns_getitem)
  then show ?thesis
    by (simp add: KEY_COLUMNS_def mapping_sort_key_def key_of_def and_then_def)
qed

lemma mapping_sort_key_Inr:
  assumes "mapping_sort_key r = Inr k"
  shows "has_columns KEY_COLUMNS r \<and> k = key_of r"
  using assms
  by (auto simp: mapping_sort_key_def and_then_def getitem_def has_columns_def KEY_COLUMNS_def
      key_of_def split: option.splits)

lemma get_canonical_tuple_total:
  assumes "has_columns KEY_COLUMNS r"
  shows "get_canonical_tuple r = Inr (key_of r)"
  using has_columns_row_values [OF assms]
  by (simp add: get_canonical_tuple_def and_then_def row_values_def KEY_COLUMNS_def key_of_def)

lemma row_ok_has_columns: "row_ok header r \<Longrightarrow> has_columns header r"
  by (auto simp: row_ok_def has_columns_def list_all_iff split: option.splits)

lemma schema_key_columns:
  "schema header \<Longrightarrow> has_columns header r \<Longrightarrow> has_columns KEY_COLUMNS r"
  by (auto simp: schema_def has_columns_def list_all_iff)

lemma schema_header_of: "schema (header_of T)"
  by (cases T)
    (simp_all add: schema_def MAPPINGS_HEADER_def PREDICTIONS_HEADER_def KEY_COLUMNS_def
      tsv_safe_def plain_def TAB_def LF_def CR_def QUOTE_def field_limit_def)

subsection \<open>What is stored of a record\<close>

lemma stored_apply: "k \<in> set header \<Longrightarrow> stored header r k = r k"
  by (simp add: stored_def)

lemma key_of_stored: "schema header \<Longrightarrow> key_of (stored header r) = key_of r"
  by (simp add: schema_def KEY_COLUMNS_def key_of_def stored_apply)

lemma row_values_stored: "row_values header (stored header r) = row_values header r"
  by (simp add: row_values_def stored_apply)

lemma row_ok_stored: "row_ok header (stored header r) = row_ok header r"
  by (simp add: row_ok_def list_all_iff stored_apply)

lemma has_columns_stored: "has_columns header (stored header r) = has_columns header r"
  by (simp add: has_columns_def list_all_iff stored_apply)

lemma record_of_stored:
  assumes "row_ok header r"
  shows "record_of header (stored header r)"
proof -
  have "\<forall>k\<in>set header. r k \<noteq> None"
    using row_ok_has_columns [OF assms] by (simp add: has_columns_def list_all_iff)
  then have "dom (stored header r) = set header"
    by (auto simp: stored_def restrict_map_def split: if_splits)
  then show ?thesis using assms by (simp add: record_of_def row_ok_stored)
qed

lemma stored_record_of:
  assumes "record_of header r"
  shows "stored header r = r"
proof
  fix k
  have "dom r = set header" using assms by (simp add: record_of_def)
  then have "k \<notin> set header \<Longrightarrow> r k = None" by auto
  then show "stored header r k = r k" by (auto simp: stored_def restrict_map_def)
qed

lemma rows_text_stored: "rows_text header (map (stored header) rs) = rows_text header rs"
  by (simp add: rows_text_def comp_def row_values_stored)

lemma table_text_stored: "table_text header (map (stored header) rs) = table_text header rs"
  by (simp add: table_text_def rows_text_stored)

lemma rows_text_append: "rows_text header (rs @ ms) = rows_text header rs @ rows_text header ms"
  by (simp add: rows_text_def)

lemma sort_key_stored:
  "schema header \<Longrightarrow>
   sort_key key_of (map (stored header) rs) = map (stored header) (sort_key key_of rs)"
  by (intro sort_key_map) (simp add: key_of_stored)

subsection \<open>Writing and loading, by table\<close>

lemma write_helper_total:
  assumes "schema header" and "list_all (has_columns header) lod"
  shows "write_helper header lod path mode fs =
         Inr (fs(path \<mapsto> open_for_writing path mode fs
                          @ (case mode of W \<Rightarrow> print_line header | A \<Rightarrow> [])
                          @ rows_text header (sort_key key_of lod)))"
proof -
  have "\<forall>r\<in>set lod. mapping_sort_key r = Inr (key_of r)"
    using assms by (auto simp: list_all_iff intro: mapping_sort_key_total schema_key_columns)
  then have sorted: "sorted_key mapping_sort_key lod = Inr (sort_key key_of lod)"
    by (rule sorted_key_total)
  have "\<forall>r\<in>set (sort_key key_of lod). traverse (getitem r) header = Inr (row_values header r)"
    using assms(2) by (auto simp: list_all_iff intro: has_columns_row_values)
  then have "traverse (\<lambda>line. traverse (getitem line) header) (sort_key key_of lod)
      = Inr (map (row_values header) (sort_key key_of lod))"
    by (rule traverse_map)
  then show ?thesis
    using sorted by (simp add: write_helper_def and_then_def rows_text_def comp_def)
qed

lemma and_then_Inr: "and_then (Inr x) f = f x"
  by (simp add: and_then_def)

lemma and_then_Inl: "and_then (Inl e) f = Inl e"
  by (simp add: and_then_def)

lemma load_rows_eq: "load_rows T fs = load_table (path_of T) fs"
  by (cases T)
    (simp_all add: load_mappings_def load_false_mappings_def load_unsure_def load_predictions_def)

lemma write_rows_eq: "write_rows T m fs = write_helper (header_of T) m (path_of T) W fs"
  by (cases T)
    (simp_all add: write_true_mappings_def write_false_mappings_def write_unsure_mappings_def
      write_predictions_def)

lemma lint_rows_eq:
  "lint_rows T fs =
     and_then (load_rows T fs) (\<lambda>loaded.
     and_then (sorted_key mapping_sort_key loaded) (\<lambda>s. write_rows T s fs))"
  by (cases T)
    (simp_all add: lint_true_mappings_def lint_false_mappings_def lint_unsure_mappings_def
      lint_predictions_def)

lemma append_rows_eq:
  "append_rows T m sort_after fs =
     and_then (write_helper (header_of T) m (path_of T) A fs) (\<lambda>fs'.
       if sort_after then lint_rows T fs' else Inr fs')"
  by (cases T; cases sort_after)
    (simp_all add: append_true_mappings_def append_false_mappings_def append_unsure_mappings_def
      append_predictions_def lint_true_mappings_def lint_false_mappings_def
      lint_unsure_mappings_def lint_predictions_def and_then_Inr)

lemma write_rows_total:
  assumes "list_all (has_columns (header_of T)) m"
  shows "write_rows T m fs = Inr (fs(path_of T \<mapsto> table_text (header_of T) (sort_key key_of m)))"
  using write_helper_total [OF schema_header_of assms, of "path_of T" W fs]
  by (simp add: write_rows_eq open_for_writing_def table_text_def)

lemma write_helper_append:
  assumes "fs (path_of T) = Some old" and "list_all (has_columns (header_of T)) m"
  shows "write_helper (header_of T) m (path_of T) A fs
       = Inr (fs(path_of T \<mapsto> old @ rows_text (header_of T) (sort_key key_of m)))"
  using write_helper_total [OF schema_header_of assms(2), of "path_of T" A fs] assms(1)
  by (simp add: open_for_writing_def)

lemma append_rows_plain:
  assumes "fs (path_of T) = Some old" and "list_all (has_columns (header_of T)) m"
  shows "append_rows T m False fs
       = Inr (fs(path_of T \<mapsto> old @ rows_text (header_of T) (sort_key key_of m)))"
  using write_helper_append [where fs = fs and T = T, OF assms]
  by (simp add: append_rows_eq and_then_Inr)

lemma load_rows_table_text:
  assumes "fs (path_of T) = Some (table_text (header_of T) rs)" and "rows_ok (header_of T) rs"
  shows "load_rows T fs = Inr (map (stored (header_of T)) rs)"
  using load_table_table_text [where fs = fs and fname = "path_of T", OF assms(1) schema_header_of assms(2)]
  by (simp add: load_rows_eq)

lemma rows_ok_has_columns: "rows_ok header rs \<Longrightarrow> list_all (has_columns header) rs"
  by (auto simp: rows_ok_def list_all_iff row_ok_has_columns)

lemma lint_rows_table_text:
  assumes "fs (path_of T) = Some (table_text (header_of T) rs)" and "rows_ok (header_of T) rs"
  shows "lint_rows T fs = Inr (fs(path_of T \<mapsto> table_text (header_of T) (sort_key key_of rs)))"
proof -
  let ?H = "header_of T"
  have cols: "list_all (has_columns ?H) (map (stored ?H) rs)"
    using rows_ok_has_columns [OF assms(2)] by (simp add: list_all_iff has_columns_stored)
  then have "\<forall>r\<in>set (map (stored ?H) rs). mapping_sort_key r = Inr (key_of r)"
    using schema_header_of [of T] unfolding list_all_iff
    by (blast intro: mapping_sort_key_total schema_key_columns)
  then have "sorted_key mapping_sort_key (map (stored ?H) rs) = Inr (sort_key key_of (map (stored ?H) rs))"
    by (rule sorted_key_total)
  moreover have "list_all (has_columns ?H) (sort_key key_of (map (stored ?H) rs))"
    using cols by (simp add: list_all_iff)
  moreover have "table_text ?H (sort_key key_of (sort_key key_of (map (stored ?H) rs)))
      = table_text ?H (sort_key key_of rs)"
    by (simp add: sort_key_sort_key sort_key_stored [OF schema_header_of] table_text_stored)
  ultimately show ?thesis
    using load_rows_table_text [where fs = fs and T = T, OF assms]
    by (simp add: lint_rows_eq and_then_def write_rows_total)
qed

lemma table_text_append:
  "table_text header rs @ rows_text header ms = table_text header (rs @ ms)"
  by (simp add: table_text_def rows_text_append)

lemma rows_ok_append: "rows_ok header (rs @ ms) \<longleftrightarrow> rows_ok header rs \<and> rows_ok header ms"
  by (auto simp: rows_ok_def)

lemma rows_ok_sort_key: "rows_ok header (sort_key f rs) \<longleftrightarrow> rows_ok header rs"
  by (simp add: rows_ok_def list_all_iff)

lemma append_rows_plain_table_text:
  assumes "fs (path_of T) = Some (table_text (header_of T) rs)"
    and "rows_ok (header_of T) m"
  shows "append_rows T m False fs
       = Inr (fs(path_of T \<mapsto> table_text (header_of T) (rs @ sort_key key_of m)))"
  using append_rows_plain [where fs = fs and T = T, OF assms(1) rows_ok_has_columns [OF assms(2)]]
  by (simp add: table_text_append)

lemma append_rows_sorted_table_text:
  assumes "fs (path_of T) = Some (table_text (header_of T) rs)"
    and "rows_ok (header_of T) rs" and "rows_ok (header_of T) m"
  shows "append_rows T m True fs
       = Inr (fs(path_of T \<mapsto> table_text (header_of T) (sort_key key_of (rs @ m))))"
proof -
  let ?fs' = "fs(path_of T \<mapsto> table_text (header_of T) (rs @ sort_key key_of m))"
  have "write_helper (header_of T) m (path_of T) A fs = Inr ?fs'"
    using write_helper_append [where fs = fs and T = T, OF assms(1) rows_ok_has_columns [OF assms(3)]]
    by (simp add: table_text_append)
  moreover have "lint_rows T ?fs'
      = Inr (?fs'(path_of T \<mapsto> table_text (header_of T) (sort_key key_of (rs @ sort_key key_of m))))"
    using assms(2,3) by (intro lint_rows_table_text) (simp_all add: rows_ok_append rows_ok_sort_key)
  ultimately show ?thesis
    by (simp add: append_rows_eq and_then_Inr sort_key_append_sorted)
qed

subsection \<open>Tables of records of the schema\<close>

lemma table_holds_rows_ok: "table_holds T rs fs \<Longrightarrow> rows_ok (header_of T) rs"
  by (auto simp: table_holds_def rows_ok_def record_of_def list_all_iff)

lemma table_holds_load:
  assumes "table_holds T rs fs"
  shows "load_rows T fs = Inr rs"
proof -
  have "map (stored (header_of T)) rs = rs"
    using assms by (auto simp: table_holds_def list_all_iff stored_record_of intro: map_idI)
  then show ?thesis
    using load_rows_table_text [of fs T rs] assms table_holds_rows_ok [OF assms]
    by (simp add: table_holds_def)
qed

lemma table_holds_update:
  assumes "rows_ok (header_of T) rs"
  shows "table_holds T (map (stored (header_of T)) rs)
           (fs(path_of T \<mapsto> table_text (header_of T) rs))"
  using assms
  by (auto simp: table_holds_def table_text_stored rows_ok_def list_all_iff record_of_stored)

subsection \<open>What a successful call tells\<close>

lemma traverse_keyed_Inr:
  "traverse (\<lambda>x. and_then (f x) (\<lambda>k. Inr (k, x))) xs = Inr kxs \<Longrightarrow>
   map snd kxs = xs \<and> (\<forall>p\<in>set kxs. f (snd p) = Inr (fst p))"
  by (induction xs arbitrary: kxs) (auto simp: and_then_def split: sum.splits)

lemma sorted_key_Inr:
  assumes "sorted_key mapping_sort_key xs = Inr ys"
  shows "list_all (has_columns KEY_COLUMNS) xs \<and> ys = sort_key key_of xs"
proof -
  obtain kxs where kxs: "traverse (\<lambda>x. and_then (mapping_sort_key x) (\<lambda>k. Inr (k, x))) xs = Inr kxs"
    using assms by (auto simp: sorted_key_def and_then_def split: sum.splits)
  have "\<forall>x\<in>set xs. mapping_sort_key x = Inr (key_of x)"
  proof
    fix x assume "x \<in> set xs"
    then obtain p where "p \<in> set kxs" "snd p = x"
      using traverse_keyed_Inr [OF kxs] by (metis (no_types, lifting) imageE set_map)
    then have "mapping_sort_key x = Inr (fst p)" using traverse_keyed_Inr [OF kxs] by auto
    then show "mapping_sort_key x = Inr (key_of x)"
      using mapping_sort_key_Inr [of x "fst p"] by simp
  qed
  then have all: "\<forall>x\<in>set xs. mapping_sort_key x = Inr (key_of x)" .
  have "sorted_key mapping_sort_key xs = Inr (sort_key key_of xs)"
    using all by (rule sorted_key_total)
  moreover have "list_all (has_columns KEY_COLUMNS) xs"
    unfolding list_all_iff using all mapping_sort_key_Inr by blast
  ultimately show ?thesis using assms by simp
qed

lemma traverse_getitem_Inr: "traverse (getitem r) header = Inr vs \<Longrightarrow> has_columns header r"
  by (induction header arbitrary: vs)
    (auto simp: has_columns_def getitem_def split: sum.splits option.splits)

lemma traverse_all_Inr:
  "traverse f xs = Inr ys \<Longrightarrow> \<forall>x\<in>set xs. \<exists>y. f x = Inr y"
  by (induction xs arbitrary: ys) (auto split: sum.splits)

lemma write_helper_Inr:
  assumes "write_helper header lod path mode fs = Inr fs'"
  shows "list_all (has_columns header) lod"
proof -
  obtain lod' rows where s: "sorted_key mapping_sort_key lod = Inr lod'"
    and t: "traverse (\<lambda>line. traverse (getitem line) header) lod' = Inr rows"
    using assms by (auto simp: write_helper_def and_then_def split: sum.splits)
  have eq: "set lod' = set lod" using sorted_key_Inr [OF s] by simp
  show ?thesis unfolding list_all_iff
  proof
    fix r assume "r \<in> set lod"
    then have "r \<in> set lod'" using eq by simp
    then obtain vs where "traverse (getitem r) header = Inr vs"
      using traverse_all_Inr [OF t] by blast
    then show "has_columns header r" by (rule traverse_getitem_Inr)
  qed
qed

lemma lint_rows_Inr:
  assumes "lint_rows T fs = Inr fs'"
  shows "\<exists>loaded. load_rows T fs = Inr loaded \<and> list_all (has_columns (header_of T)) loaded \<and>
           fs' = fs(path_of T \<mapsto> table_text (header_of T) (sort_key key_of loaded))"
proof -
  obtain loaded s where l: "load_rows T fs = Inr loaded"
    and s: "sorted_key mapping_sort_key loaded = Inr s" and w: "write_rows T s fs = Inr fs'"
    using assms by (auto simp: lint_rows_eq and_then_def split: sum.splits)
  have s': "s = sort_key key_of loaded" using sorted_key_Inr [OF s] by simp
  have cols: "list_all (has_columns (header_of T)) s"
    using w write_helper_Inr by (simp add: write_rows_eq)
  then have "fs' = fs(path_of T \<mapsto> table_text (header_of T) (sort_key key_of s))"
    using w by (simp add: write_rows_total)
  then show ?thesis using l cols by (simp add: s' sort_key_sort_key list_all_iff)
qed

subsection \<open>Lint, append and write on loaded records\<close>

lemma lint_rows_loaded:
  assumes "load_rows T fs = Inr rows" and "list_all (has_columns (header_of T)) rows"
  shows "lint_rows T fs = Inr (fs(path_of T \<mapsto> table_text (header_of T) (sort_key key_of rows)))"
proof -
  have "\<forall>r\<in>set rows. mapping_sort_key r = Inr (key_of r)"
    using assms(2) schema_header_of [of T] unfolding list_all_iff
    by (blast intro: mapping_sort_key_total schema_key_columns)
  then have "sorted_key mapping_sort_key rows = Inr (sort_key key_of rows)"
    by (rule sorted_key_total)
  moreover have "list_all (has_columns (header_of T)) (sort_key key_of rows)"
    using assms(2) by (simp add: list_all_iff)
  ultimately show ?thesis
    using assms(1) by (simp add: lint_rows_eq and_then_Inr write_rows_total sort_key_sort_key)
qed

lemma load_rows_update:
  assumes "rows_ok (header_of T) rs"
  shows "load_rows T (fs(path_of T \<mapsto> table_text (header_of T) rs))
       = Inr (map (stored (header_of T)) rs)"
  using assms by (intro load_rows_table_text) simp_all

lemma map_key_of_stored:
  "map key_of (map (stored (header_of T)) rs) = map key_of rs"
  by (simp add: key_of_stored [OF schema_header_of])

lemma sorted_stored_sort_key:
  "sorted (map key_of (map (stored (header_of T)) (sort_key key_of rs)))"
  by (simp only: map_key_of_stored sorted_sort_key)

lemma map_stored_table_holds:
  assumes "table_holds T rs fs"
  shows "map (stored (header_of T)) rs = rs"
  using assms by (auto simp: table_holds_def list_all_iff stored_record_of intro: map_idI)

subsection \<open>The example tables\<close>

lemma paths_distinct:
  "TRUE_MAPPINGS_PATH \<noteq> FALSE_MAPPINGS_PATH" "TRUE_MAPPINGS_PATH \<noteq> UNSURE_PATH"
  "TRUE_MAPPINGS_PATH \<noteq> PREDICTIONS_PATH" "FALSE_MAPPINGS_PATH \<noteq> UNSURE_PATH"
  "FALSE_MAPPINGS_PATH \<noteq> PREDICTIONS_PATH" "UNSURE_PATH \<noteq> PREDICTIONS_PATH"
  by (simp_all add: TRUE_MAPPINGS_PATH_def FALSE_MAPPINGS_PATH_def UNSURE_PATH_def
      PREDICTIONS_PATH_def get_resource_file_path_def)

lemma tsv_safe_literals:
  "tsv_safe ''1''" "tsv_safe ''2''" "tsv_safe ''t''" "tsv_safe ''name 1''" "tsv_safe ''name 2''"
  "tsv_safe ''skos:exactMatch''" "tsv_safe ''manual''" "tsv_safe ''orcid:0000''"
  "tsv_safe ''lexical''" "tsv_safe ''generator''" "tsv_safe ''0.9''" "tsv_safe ''0.5''"
  "tsv_safe ''a''" "tsv_safe ''f''" "tsv_safe ''p''" "tsv_safe ''u''" "tsv_safe ''x''"
  "tsv_safe ''other name''"
  by (simp_all add: tsv_safe_def plain_def TAB_def LF_def CR_def QUOTE_def field_limit_def)

lemma row_values_example_mapping:
  "row_values MAPPINGS_HEADER (example_mapping p) =
     [p, ''1'', ''name 1'', ''skos:exactMatch'', ''t'', ''2'', ''name 2'', ''manual'', ''orcid:0000'']"
  by (simp add: row_values_def example_mapping_def dict_zip_def MAPPINGS_HEADER_def)

lemma row_values_example_prediction:
  "row_values PREDICTIONS_HEADER (example_prediction p n c) =
     [p, ''1'', n, ''skos:exactMatch'', ''t'', ''2'', ''name 2'', ''lexical'', c, ''generator'']"
  by (simp add: row_values_def example_prediction_def dict_zip_def PREDICTIONS_HEADER_def)

lemma key_of_example_mapping:
  "key_of (example_mapping p) = (p, ''1'', ''skos:exactMatch'', ''t'', ''2'', ''manual'', ''orcid:0000'')"
  by (simp add: key_of_def example_mapping_def dict_zip_def MAPPINGS_HEADER_def)

lemma key_of_example_prediction:
  "key_of (example_prediction p n c) = (p, ''1'', ''skos:exactMatch'', ''t'', ''2'', ''lexical'', ''generator'')"
  by (simp add: key_of_def example_prediction_def dict_zip_def PREDICTIONS_HEADER_def)

lemma dict_zip_dom:
  "length vs = length header \<Longrightarrow> dom (dict_zip header vs) = set header"
  by (simp add: dict_zip_def dom_map_upds)

lemma record_of_values:
  assumes "dom r = set header" and "list_all tsv_safe (row_values header r)"
  shows "record_of header r"
proof -
  have "\<forall>k\<in>set header. \<exists>v. r k = Some v \<and> tsv_safe v"
  proof
    fix k assume k: "k \<in> set header"
    then obtain v where "r k = Some v" using assms(1) by auto
    moreover have "tsv_safe (the (r k))"
      using assms(2) k by (simp add: row_values_def list_all_iff)
    ultimately show "\<exists>v. r k = Some v \<and> tsv_safe v" by simp
  qed
  then have "row_ok header r" by (auto simp: row_ok_def list_all_iff)
  then show ?thesis using assms(1) by (simp add: record_of_def)
qed

lemma record_of_example_mapping:
  assumes "tsv_safe p"
  shows "record_of MAPPINGS_HEADER (example_mapping p)"
proof (rule record_of_values)
  show "dom (example_mapping p) = set MAPPINGS_HEADER"
    unfolding example_mapping_def by (rule dict_zip_dom) (simp add: MAPPINGS_HEADER_def)
  show "list_all tsv_safe (row_values MAPPINGS_HEADER (example_mapping p))"
    using assms by (simp add: row_values_example_mapping tsv_safe_literals)
qed

lemma record_of_example_prediction:
  assumes "tsv_safe p" and "tsv_safe n" and "tsv_safe c"
  shows "record_of PREDICTIONS_HEADER (example_prediction p n c)"
proof (rule record_of_values)
  show "dom (example_prediction p n c) = set PREDICTIONS_HEADER"
    unfolding example_prediction_def by (rule dict_zip_dom) (simp add: PREDICTIONS_HEADER_def)
  show "list_all tsv_safe (row_values PREDICTIONS_HEADER (example_prediction p n c))"
    using assms by (simp add: row_values_example_prediction tsv_safe_literals)
qed

lemma record_of_row_ok: "record_of header r \<Longrightarrow> row_ok header r"
  by (simp add: record_of_def)

lemma example_store_paths:
  "example_store TRUE_MAPPINGS_PATH = Some (table_text MAPPINGS_HEADER [example_mapping ''x''])"
  "example_store FALSE_MAPPINGS_PATH = Some (table_text MAPPINGS_HEADER [example_mapping ''f''])"
  "example_store UNSURE_PATH = Some (table_text MAPPINGS_HEADER [example_mapping ''u''])"
  "example_store PREDICTIONS_PATH
     = Some (table_text PREDICTIONS_HEADER [example_prediction ''p'' ''name 1'' ''0.9''])"
  using paths_distinct by (simp_all add: example_store_def)

lemma example_store_holds:
  "table_holds TrueMappings [example_mapping ''x''] example_store"
  "table_holds FalseMappings [example_mapping ''f''] example_store"
  "table_holds Unsure [example_mapping ''u''] example_store"
  "table_holds Predictions [example_prediction ''p'' ''name 1'' ''0.9''] example_store"
  by (simp_all add: table_holds_def example_store_paths record_of_example_mapping
      record_of_example_prediction tsv_safe_literals)

subsection \<open>Lint only reorders\<close>

lemma filter_key_length_mset:
  assumes "mset xs = mset ys"
  shows "length (filter P xs) = length (filter P ys)"
proof -
  have "mset (filter P xs) = mset (filter P ys)" using assms by (simp add: mset_filter)
  then show ?thesis by (rule mset_eq_length)
qed

text \<open>
  Claim C9, as amended. For every table whose file is the header line of the schema
  followed by one line per record, the records having exactly the columns of the schema
  with values that can be written and read back (no tab, no line end, no double quote at
  the start, within the field size limit), lint returns and never removes records: the
  multiset of the records loaded after lint equals the multiset of the records loaded
  before lint (lint only reorders), so the number of records with any given canonical key
  is unchanged and duplicate keys persist. Besides, for every store on which lint of a
  table returns, the file it leaves is the text of a permutation of the records loaded
  before.
\<close>

theorem C9_lint_only_reorders:
  "(lint_rows T fs = Inr fs' \<longrightarrow>
      (\<exists>before after. load_rows T fs = Inr before \<and> mset after = mset before \<and>
         fs' = fs(path_of T \<mapsto> table_text (header_of T) after))) \<and>
   (table_holds T rs fs \<longrightarrow>
      (\<exists>fs'' after. load_rows T fs = Inr rs \<and> lint_rows T fs = Inr fs'' \<and>
         load_rows T fs'' = Inr after \<and> mset after = mset rs \<and>
         (\<forall>k. length (filter (\<lambda>r. key_of r = k) after) = length (filter (\<lambda>r. key_of r = k) rs))))"
proof (intro conjI impI)
  assume "lint_rows T fs = Inr fs'"
  then obtain loaded where l: "load_rows T fs = Inr loaded"
    and f: "fs' = fs(path_of T \<mapsto> table_text (header_of T) (sort_key key_of loaded))"
    using lint_rows_Inr by blast
  have "mset (sort_key key_of loaded) = mset loaded" by simp
  then show "\<exists>before after. load_rows T fs = Inr before \<and> mset after = mset before \<and>
         fs' = fs(path_of T \<mapsto> table_text (header_of T) after)"
    using l f by blast
next
  assume h: "table_holds T rs fs"
  let ?H = "header_of T"
  let ?after = "map (stored ?H) (sort_key key_of rs)"
  let ?fs = "fs(path_of T \<mapsto> table_text ?H (sort_key key_of rs))"
  have ok: "rows_ok ?H rs" using h by (rule table_holds_rows_ok)
  have load: "load_rows T fs = Inr rs" using h by (rule table_holds_load)
  have lint: "lint_rows T fs = Inr ?fs"
    using load rows_ok_has_columns [OF ok] by (rule lint_rows_loaded)
  have after: "load_rows T ?fs = Inr ?after"
    using ok by (intro load_rows_update) (simp add: rows_ok_sort_key)
  have "?after = sort_key key_of (map (stored ?H) rs)"
    by (simp add: sort_key_stored [OF schema_header_of])
  then have m: "mset ?after = mset rs" by (simp add: map_stored_table_holds [OF h])
  then have "\<forall>k. length (filter (\<lambda>r. key_of r = k) ?after) = length (filter (\<lambda>r. key_of r = k) rs)"
    using filter_key_length_mset by blast
  then show "\<exists>fs'' after. load_rows T fs = Inr rs \<and> lint_rows T fs = Inr fs'' \<and>
         load_rows T fs'' = Inr after \<and> mset after = mset rs \<and>
         (\<forall>k. length (filter (\<lambda>r. key_of r = k) after) = length (filter (\<lambda>r. key_of r = k) rs))"
    using load lint after m by blast
qed

subsection \<open>Rows with a quoted last field\<close>

lemma parse_line_prefix:
  assumes "list_all tsv_safe (v # vs)" and "s = START_FIELD \<or> s = START_RECORD"
  shows "parse_line \<lparr>rd_fields = fs, rd_field = [], rd_state = s\<rparr> (join [TAB] (v # vs) @ TAB # rest)
       = parse_line \<lparr>rd_fields = fs @ v # vs, rd_field = [], rd_state = START_FIELD\<rparr> rest"
  using assms
proof (induction vs arbitrary: v fs s)
  case Nil
  then show ?case by (simp add: parse_line_field_tab)
next
  case (Cons w ws)
  have "parse_line \<lparr>rd_fields = fs, rd_field = [], rd_state = s\<rparr>
          (v @ TAB # join [TAB] (w # ws) @ TAB # rest)
        = parse_line \<lparr>rd_fields = fs @ [v], rd_field = [], rd_state = START_FIELD\<rparr>
          (join [TAB] (w # ws) @ TAB # rest)"
    using Cons.prems by (intro parse_line_field_tab) auto
  also have "\<dots> = parse_line \<lparr>rd_fields = (fs @ [v]) @ w # ws, rd_field = [], rd_state = START_FIELD\<rparr> rest"
    using Cons.prems by (intro Cons.IH) auto
  finally show ?case by simp
qed

lemma readlines_bodies:
  assumes "\<forall>b\<in>set bs. LF \<notin> set b \<and> CR \<notin> set b"
  shows "readlines (concat (map (\<lambda>b. b @ [LF]) bs)) = map (\<lambda>b. b @ [LF]) bs"
proof -
  have "CR \<notin> set (concat (map (\<lambda>b. b @ [LF]) bs))"
    using assms by (auto simp: LF_def CR_def)
  then show ?thesis
    using assms by (simp add: readlines_def universal_newlines_id lines_from_concat)
qed

lemma quoted_row_prefix:
  "join [TAB] (quoted_row v) = join [TAB] [''a'', ''1'', ''n'', ''r'', ''b'', ''2'', ''m'', ''t''] @ TAB # v"
  by (simp add: quoted_row_def)

lemma quoted_prefix_safe:
  "list_all tsv_safe [''a'', ''1'', ''n'', ''r'', ''b'', ''2'', ''m'', ''t'']"
  by (simp add: tsv_safe_def plain_def TAB_def LF_def CR_def QUOTE_def field_limit_def)

lemma parse_line_quoted_row:
  "parse_line parse_reset (print_line (quoted_row v))
   = parse_line \<lparr>rd_fields = [''a'', ''1'', ''n'', ''r'', ''b'', ''2'', ''m'', ''t''],
        rd_field = [], rd_state = START_FIELD\<rparr> (v @ [LF])"
  using parse_line_prefix [OF quoted_prefix_safe, of START_RECORD "[]" "v @ [LF]"]
  by (simp add: print_line_def quoted_row_prefix parse_reset_def)

lemma parse_line_closed_quote:
  "parse_line \<lparr>rd_fields = fs, rd_field = [], rd_state = START_FIELD\<rparr>
     [QUOTE, QUOTE, QUOTE, CHR ''x'', QUOTE, LF]
   = Inr \<lparr>rd_fields = fs @ [[QUOTE, CHR ''x'']], rd_field = [], rd_state = START_RECORD\<rparr>"
  by (simp add: parse_process_char_def start_field_def parse_add_char_def parse_save_field_def
      and_then_def field_limit_def QUOTE_def LF_def CR_def TAB_def)

lemma parse_line_open_quote:
  "parse_line \<lparr>rd_fields = fs, rd_field = [], rd_state = START_FIELD\<rparr> [QUOTE, CHR ''x'', LF]
   = Inr \<lparr>rd_fields = fs, rd_field = [CHR ''x'', LF], rd_state = IN_QUOTED_FIELD\<rparr>"
  by (simp add: parse_process_char_def start_field_def parse_add_char_def parse_save_field_def
      and_then_def field_limit_def QUOTE_def LF_def CR_def TAB_def)

lemma mappings_header_printable: "printable_row MAPPINGS_HEADER"
  using schema_header_of [of TrueMappings] by (simp add: schema_printable)

lemma readlines_quoted_file:
  assumes "LF \<notin> set v" and "CR \<notin> set v"
  shows "readlines (quoted_file v) = [print_line MAPPINGS_HEADER, print_line (quoted_row v)]"
proof -
  have h: "LF \<notin> set (join [TAB] MAPPINGS_HEADER) \<and> CR \<notin> set (join [TAB] MAPPINGS_HEADER)"
    using mappings_header_printable by (intro join_no_line_end) (simp add: printable_row_def)
  have "LF \<notin> set (join [TAB] [''a'', ''1'', ''n'', ''r'', ''b'', ''2'', ''m'', ''t''])
      \<and> CR \<notin> set (join [TAB] [''a'', ''1'', ''n'', ''r'', ''b'', ''2'', ''m'', ''t''])"
    using quoted_prefix_safe by (rule join_no_line_end)
  then have r: "LF \<notin> set (join [TAB] (quoted_row v)) \<and> CR \<notin> set (join [TAB] (quoted_row v))"
    using assms unfolding quoted_row_prefix by (auto simp: TAB_def LF_def CR_def)
  have "readlines (concat (map (\<lambda>b. b @ [LF]) [join [TAB] MAPPINGS_HEADER, join [TAB] (quoted_row v)]))
      = map (\<lambda>b. b @ [LF]) [join [TAB] MAPPINGS_HEADER, join [TAB] (quoted_row v)]"
    using h r by (intro readlines_bodies) simp
  then show ?thesis by (simp add: quoted_file_def print_line_def)
qed

lemma reader_rows_complete_row:
  assumes "parse_line parse_reset l = Inr \<lparr>rd_fields = row, rd_field = [], rd_state = START_RECORD\<rparr>"
    and "reader_rows parse_reset ls = Inr rows"
  shows "reader_rows parse_reset (l # ls) = Inr (row # rows)"
  using assms by (simp add: and_then_Inr)

lemma reader_rows_open_quote:
  assumes "parse_line parse_reset l = Inr \<lparr>rd_fields = row, rd_field = v, rd_state = IN_QUOTED_FIELD\<rparr>"
  shows "reader_rows parse_reset [l] = Inr [row @ [v]]"
  using assms by (simp add: parse_save_field_def)

lemma reader_rows_end: "reader_rows parse_reset [] = Inr []"
  by (simp add: parse_reset_def)

lemma csv_reader_quoted_file_1:
  "csv_reader (quoted_file [QUOTE, QUOTE, QUOTE, CHR ''x'', QUOTE])
   = Inr [MAPPINGS_HEADER, quoted_row [QUOTE, CHR ''x'']]"
proof -
  have lines: "readlines (quoted_file [QUOTE, QUOTE, QUOTE, CHR ''x'', QUOTE])
      = [print_line MAPPINGS_HEADER, print_line (quoted_row [QUOTE, QUOTE, QUOTE, CHR ''x'', QUOTE])]"
    by (intro readlines_quoted_file) (simp_all add: QUOTE_def LF_def CR_def)
  have "parse_line parse_reset (print_line (quoted_row [QUOTE, QUOTE, QUOTE, CHR ''x'', QUOTE]))
      = Inr \<lparr>rd_fields = [''a'', ''1'', ''n'', ''r'', ''b'', ''2'', ''m'', ''t''] @ [[QUOTE, CHR ''x'']],
            rd_field = [], rd_state = START_RECORD\<rparr>"
    by (simp only: parse_line_quoted_row append.simps parse_line_closed_quote)
  then have row: "parse_line parse_reset (print_line (quoted_row [QUOTE, QUOTE, QUOTE, CHR ''x'', QUOTE]))
      = Inr \<lparr>rd_fields = quoted_row [QUOTE, CHR ''x''], rd_field = [], rd_state = START_RECORD\<rparr>"
    by (simp add: quoted_row_def)
  have "reader_rows parse_reset
          [print_line MAPPINGS_HEADER, print_line (quoted_row [QUOTE, QUOTE, QUOTE, CHR ''x'', QUOTE])]
      = Inr [MAPPINGS_HEADER, quoted_row [QUOTE, CHR ''x'']]"
    by (rule reader_rows_complete_row [OF parse_line_print_line [OF mappings_header_printable]
          reader_rows_complete_row [OF row reader_rows_end]])
  then show ?thesis by (simp only: csv_reader_def lines)
qed

lemma csv_reader_quoted_file_2:
  "csv_reader (quoted_file [QUOTE, CHR ''x''])
   = Inr [MAPPINGS_HEADER, quoted_row [CHR ''x'', LF]]"
proof -
  have lines: "readlines (quoted_file [QUOTE, CHR ''x''])
      = [print_line MAPPINGS_HEADER, print_line (quoted_row [QUOTE, CHR ''x''])]"
    by (intro readlines_quoted_file) (simp_all add: QUOTE_def LF_def CR_def)
  have "parse_line parse_reset (print_line (quoted_row [QUOTE, CHR ''x'']))
      = Inr \<lparr>rd_fields = [''a'', ''1'', ''n'', ''r'', ''b'', ''2'', ''m'', ''t''],
            rd_field = [CHR ''x'', LF], rd_state = IN_QUOTED_FIELD\<rparr>"
    by (simp only: parse_line_quoted_row append.simps parse_line_open_quote)
  then have "reader_rows parse_reset [print_line (quoted_row [QUOTE, CHR ''x''])]
      = Inr [[''a'', ''1'', ''n'', ''r'', ''b'', ''2'', ''m'', ''t''] @ [[CHR ''x'', LF]]]"
    by (rule reader_rows_open_quote)
  then have "reader_rows parse_reset [print_line (quoted_row [QUOTE, CHR ''x''])]
      = Inr [quoted_row [CHR ''x'', LF]]"
    by (simp add: quoted_row_def)
  then have "reader_rows parse_reset
          [print_line MAPPINGS_HEADER, print_line (quoted_row [QUOTE, CHR ''x''])]
      = Inr [MAPPINGS_HEADER, quoted_row [CHR ''x'', LF]]"
    by (rule reader_rows_complete_row [OF parse_line_print_line [OF mappings_header_printable]])
  then show ?thesis by (simp only: csv_reader_def lines)
qed

subsection \<open>Lint twice\<close>

text \<open>
  Claim C7, as amended. When the records that lint loads from a table have values that
  can be written and read back (no tab, no line end, no double quote at the start, within
  the field size limit) in all columns of the schema, lint returns and a second
  consecutive lint leaves the store, and so the file, as the first left it.
\<close>

theorem C7_lint_idempotent_on_safe_values:
  assumes "load_rows T fs = Inr rows" and "rows_ok (header_of T) rows"
  shows "\<exists>fs1. lint_rows T fs = Inr fs1 \<and> lint_rows T fs1 = Inr fs1"
proof -
  let ?H = "header_of T"
  let ?fs1 = "fs(path_of T \<mapsto> table_text ?H (sort_key key_of rows))"
  have first: "lint_rows T fs = Inr ?fs1"
    using assms(1) rows_ok_has_columns [OF assms(2)] by (rule lint_rows_loaded)
  have "lint_rows T ?fs1 = Inr (?fs1(path_of T \<mapsto> table_text ?H (sort_key key_of (sort_key key_of rows))))"
    using assms(2) by (intro lint_rows_table_text) (simp_all add: rows_ok_sort_key)
  then have "lint_rows T ?fs1 = Inr ?fs1" by (simp add: sort_key_sort_key)
  then show ?thesis using first by blast
qed

theorem C7_lint_idempotent_on_safe_values_witness:
  "load_rows TrueMappings example_store = Inr [example_mapping ''x''] \<and>
   rows_ok (header_of TrueMappings) [example_mapping ''x''] \<and>
   (\<exists>fs1. lint_rows TrueMappings example_store = Inr fs1 \<and> lint_rows TrueMappings fs1 = Inr fs1)"
proof -
  have holds: "table_holds TrueMappings [example_mapping ''x''] example_store"
    by (rule example_store_holds)
  show ?thesis
    using C7_lint_idempotent_on_safe_values [OF table_holds_load [OF holds] table_holds_rows_ok [OF holds]]
      table_holds_load [OF holds] table_holds_rows_ok [OF holds]
    by simp
qed

text \<open>
  The claim as stated fails. The file \<open>quoted_file\<close> with the last field \<^verbatim>\<open>"""x"\<close> is a
  true-mappings table that lint accepts; lint writes the value \<^verbatim>\<open>"x\<close> as it is; the second
  lint reads that field as a quoted field that runs to the end of the file, and writes a
  different file.
\<close>

lemma row_values_quoted_row:
  "row_values MAPPINGS_HEADER (dict_zip MAPPINGS_HEADER (quoted_row v)) = quoted_row v"
  by (simp add: row_values_def dict_zip_def MAPPINGS_HEADER_def quoted_row_def)

lemma lint_quoted_store:
  assumes "csv_reader (quoted_file raw) = Inr [MAPPINGS_HEADER, quoted_row v]"
  shows "lint_true_mappings (quoted_store raw) = Inr (quoted_store v)"
proof -
  let ?r = "dict_zip MAPPINGS_HEADER (quoted_row v)"
  have load: "load_rows TrueMappings (quoted_store raw) = Inr [?r]"
    using assms by (simp add: load_mappings_def load_table_def quoted_store_def)
  have "dom ?r = set MAPPINGS_HEADER"
    by (rule dict_zip_dom) (simp add: MAPPINGS_HEADER_def quoted_row_def)
  then have "has_columns (header_of TrueMappings) ?r"
    by (auto simp: has_columns_def list_all_iff)
  then have "lint_rows TrueMappings (quoted_store raw)
      = Inr ((quoted_store raw)(path_of TrueMappings \<mapsto>
          table_text (header_of TrueMappings) (sort_key key_of [?r])))"
    using load by (intro lint_rows_loaded) simp_all
  then show ?thesis
    by (simp add: quoted_store_def quoted_file_def table_text_def rows_text_def
        row_values_quoted_row)
qed

theorem C7_second_lint_changes_file:
  "lint_true_mappings (quoted_store [QUOTE, QUOTE, QUOTE, CHR ''x'', QUOTE])
     = Inr (quoted_store [QUOTE, CHR ''x'']) \<and>
   lint_true_mappings (quoted_store [QUOTE, CHR ''x'']) = Inr (quoted_store [CHR ''x'', LF]) \<and>
   quoted_store [CHR ''x'', LF] TRUE_MAPPINGS_PATH \<noteq> quoted_store [QUOTE, CHR ''x''] TRUE_MAPPINGS_PATH"
proof -
  have "quoted_file [CHR ''x'', LF] \<noteq> quoted_file [QUOTE, CHR ''x'']"
    by (simp add: quoted_file_def quoted_row_def print_line_def QUOTE_def LF_def TAB_def)
  then show ?thesis
    using lint_quoted_store [OF csv_reader_quoted_file_1] lint_quoted_store [OF csv_reader_quoted_file_2]
    by (simp add: quoted_store_def)
qed

subsection \<open>Appending predictions with and without deduplication\<close>

lemma append_predictions_plain:
  "append_predictions gct m False sort_after fs = append_rows Predictions m sort_after fs"
  by (simp add: append_predictions_def)

lemma append_predictions_dedup:
  "append_predictions gct m True sort_after fs =
     and_then (and_then (existing_mappings gct fs) (\<lambda>existing. not_in_existing gct existing m))
       (\<lambda>m'. append_rows Predictions m' sort_after fs)"
  by (simp add: append_predictions_def and_then_Inr)

lemma keyed_filter:
  "traverse (\<lambda>x. and_then (f x) (\<lambda>k. Inr (k, x))) xs = Inr kxs \<Longrightarrow>
   map snd (filter (\<lambda>(k, x). k \<notin> K) kxs) = filter (\<lambda>x. \<forall>k. f x = Inr k \<longrightarrow> k \<notin> K) xs \<and>
   (\<forall>x\<in>set xs. \<exists>k. f x = Inr k)"
  by (induction xs arbitrary: kxs) (auto simp: and_then_def split: sum.splits)

lemma not_in_existing_Inr:
  assumes "not_in_existing gct K m = Inr m'"
  shows "m' = filter (\<lambda>r. \<forall>k. gct r = Inr k \<longrightarrow> k \<notin> K) m \<and> (\<forall>r\<in>set m. \<exists>k. gct r = Inr k)"
proof -
  obtain keyed where k: "traverse (\<lambda>x. and_then (gct x) (\<lambda>k. Inr (k, x))) m = Inr keyed"
    and m': "m' = map snd (filter (\<lambda>(k, x). k \<notin> K) keyed)"
    using assms by (auto simp: not_in_existing_def and_then_def split: sum.splits)
  show ?thesis using keyed_filter [OF k, of K] m' by simp
qed

lemma not_in_existing_total:
  assumes "\<forall>r\<in>set m. gct r = Inr (g r)"
  shows "not_in_existing gct K m = Inr (filter (\<lambda>r. g r \<notin> K) m)"
proof -
  have "traverse (\<lambda>x. and_then (gct x) (\<lambda>k. Inr (k, x))) m = Inr (map (\<lambda>x. (g x, x)) m)"
    using assms by (intro traverse_map) (simp add: and_then_Inr)
  moreover have "map snd (filter (\<lambda>(k, x). k \<notin> K) (map (\<lambda>x. (g x, x)) m)) = filter (\<lambda>r. g r \<notin> K) m"
    by (induction m) auto
  ultimately show ?thesis by (simp add: not_in_existing_def and_then_Inr)
qed

lemma rows_ok_filter: "rows_ok header m \<Longrightarrow> rows_ok header (filter P m)"
  by (simp add: rows_ok_def list_all_iff)

subsection \<open>Append with sorting against one sorted rewrite\<close>

lemma append_sorted_is_rewrite:
  assumes "table_holds T rs fs" and "rows_ok (header_of T) m"
  shows "append_rows T m True fs
           = Inr (fs(path_of T \<mapsto> table_text (header_of T) (sort_key key_of (rs @ m))))"
    and "write_rows T (rs @ m) fs
           = Inr (fs(path_of T \<mapsto> table_text (header_of T) (sort_key key_of (rs @ m))))"
proof -
  have ok: "rows_ok (header_of T) rs" using assms(1) by (rule table_holds_rows_ok)
  have held: "fs (path_of T) = Some (table_text (header_of T) rs)"
    using assms(1) by (simp add: table_holds_def)
  show "append_rows T m True fs
           = Inr (fs(path_of T \<mapsto> table_text (header_of T) (sort_key key_of (rs @ m))))"
    using held ok assms(2) by (rule append_rows_sorted_table_text)
  have "list_all (has_columns (header_of T)) (rs @ m)"
    using rows_ok_has_columns [of "header_of T" "rs @ m"] ok assms(2) by (simp add: rows_ok_append)
  then show "write_rows T (rs @ m) fs
           = Inr (fs(path_of T \<mapsto> table_text (header_of T) (sort_key key_of (rs @ m))))"
    by (rule write_rows_total)
qed

subsection \<open>The keys that deduplication consults\<close>

lemma row_ok_canonical:
  assumes "row_ok (header_of T) r"
  shows "get_canonical_tuple r = Inr (key_of r)"
proof -
  have "has_columns (header_of T) r" using assms by (rule row_ok_has_columns)
  then have "has_columns KEY_COLUMNS r" using schema_header_of by (rule schema_key_columns [rotated])
  then show ?thesis by (rule get_canonical_tuple_total)
qed

lemma table_holds_canonical:
  assumes "table_holds T rs fs" and "r \<in> set rs"
  shows "get_canonical_tuple r = Inr (key_of r)"
proof -
  have "row_ok (header_of T) r"
    using table_holds_rows_ok [OF assms(1)] assms(2) by (simp add: rows_ok_def list_all_iff)
  then show ?thesis by (rule row_ok_canonical)
qed

lemma existing_mappings_holds:
  assumes "table_holds TrueMappings ts fs" and "table_holds FalseMappings fms fs"
    and "table_holds Predictions ps fs"
  shows "existing_mappings get_canonical_tuple fs = Inr (key_of ` set (ts @ fms @ ps))"
proof -
  have "\<forall>r\<in>set (ts @ fms @ ps). get_canonical_tuple r = Inr (key_of r)"
    using table_holds_canonical [OF assms(1)] table_holds_canonical [OF assms(2)]
      table_holds_canonical [OF assms(3)] by auto
  then have "traverse get_canonical_tuple (ts @ fms @ ps) = Inr (map key_of (ts @ fms @ ps))"
    by (rule traverse_map)
  then show ?thesis
    using table_holds_load [OF assms(1)] table_holds_load [OF assms(2)]
      table_holds_load [OF assms(3)]
    by (simp add: existing_mappings_def and_then_Inr del: map_append)
qed

lemma example_existing:
  "existing_mappings get_canonical_tuple example_store
   = Inr (key_of ` set ([example_mapping ''x''] @ [example_mapping ''f'']
            @ [example_prediction ''p'' ''name 1'' ''0.9'']))"
  by (rule existing_mappings_holds [OF example_store_holds(1,2,4)])

lemma example_batch_ok:
  "rows_ok (header_of Predictions)
     [example_prediction ''p'' ''other name'' ''0.5'', example_prediction ''a'' ''name 1'' ''0.5'']"
  by (simp add: rows_ok_def record_of_row_ok record_of_example_prediction tsv_safe_literals)

lemma example_survivors:
  "not_in_existing get_canonical_tuple
     (key_of ` set ([example_mapping ''x''] @ [example_mapping ''f'']
            @ [example_prediction ''p'' ''name 1'' ''0.9'']))
     [example_prediction ''p'' ''other name'' ''0.5'', example_prediction ''a'' ''name 1'' ''0.5'']
   = Inr [example_prediction ''a'' ''name 1'' ''0.5'']"
proof -
  have "\<forall>r\<in>set [example_prediction ''p'' ''other name'' ''0.5'',
            example_prediction ''a'' ''name 1'' ''0.5'']. get_canonical_tuple r = Inr (key_of r)"
    using example_batch_ok row_ok_canonical [of Predictions]
    by (simp add: rows_ok_def)
  then have "not_in_existing get_canonical_tuple
     (key_of ` set ([example_mapping ''x''] @ [example_mapping ''f'']
            @ [example_prediction ''p'' ''name 1'' ''0.9'']))
     [example_prediction ''p'' ''other name'' ''0.5'', example_prediction ''a'' ''name 1'' ''0.5'']
   = Inr (filter (\<lambda>r. key_of r \<notin> key_of ` set ([example_mapping ''x''] @ [example_mapping ''f'']
            @ [example_prediction ''p'' ''name 1'' ''0.9'']))
       [example_prediction ''p'' ''other name'' ''0.5'', example_prediction ''a'' ''name 1'' ''0.5''])"
    by (rule not_in_existing_total)
  then show ?thesis
    by (simp add: key_of_example_mapping key_of_example_prediction)
qed

subsection \<open>The order of the records after a write\<close>

lemma loaded_after_update:
  assumes "rows_ok (header_of T) rows"
  shows "load_rows T (fs(path_of T \<mapsto> table_text (header_of T) rows))
       = Inr (map (stored (header_of T)) rows)"
  using assms by (rule load_rows_update)

lemma sorted_after_update:
  assumes "rows_ok (header_of T) xs"
  shows "\<exists>rows. load_rows T (fs(path_of T \<mapsto> table_text (header_of T) (sort_key key_of xs)))
            = Inr rows \<and> sorted (map key_of rows)"
proof -
  have "load_rows T (fs(path_of T \<mapsto> table_text (header_of T) (sort_key key_of xs)))
      = Inr (map (stored (header_of T)) (sort_key key_of xs))"
    using assms by (intro load_rows_update) (simp add: rows_ok_sort_key)
  then show ?thesis using sorted_stored_sort_key by blast
qed

lemma example_append_batch_ok: "rows_ok (header_of TrueMappings) [example_mapping ''a'']"
  by (simp add: rows_ok_def record_of_row_ok record_of_example_mapping tsv_safe_literals)

subsection \<open>Rows that are shorter or longer than the header\<close>

lemma zip_take_left: "zip xs (take (length xs) ys) = zip xs ys"
proof (induction xs arbitrary: ys)
  case Nil
  then show ?case by simp
next
  case (Cons x xs)
  then show ?case by (cases ys) simp_all
qed

lemma dict_zip_truncates: "dict_zip header (take (length header) row) = dict_zip header row"
  by (simp add: dict_zip_def map_upds_def zip_take_left)

lemma dict_zip_columns: "dom (dict_zip header row) = set (take (length row) header)"
  by (simp add: dict_zip_def dom_map_upds)

text \<open>
  Claim C3, as amended. The load of a table does not fail when a row has another number
  of fields than the header. For a file of lines of tab-separated fields in which no line
  is empty (every row has a field, and a single field is not empty) and no field holds a
  tab or a line end, begins with a double quote or is longer than the field size limit
  of the reader (131072 characters), the load returns the whole table: every row is
  zipped with the header, so that the record of a row with fewer fields has only the
  first columns (it is not padded), and the record of a row with more fields is that of
  its first \<open>n\<close> fields (it is truncated without notice).
\<close>

theorem C3_load_zips_rows_of_any_length:
  assumes "fs fname = Some (concat (map print_line (header # rows)))"
    and "list_all printable_row (header # rows)"
  shows "load_table fname fs = Inr (map (dict_zip header) rows) \<and>
         (\<forall>row\<in>set rows.
            dom (dict_zip header row) = set (take (length row) header) \<and>
            dict_zip header row = dict_zip header (take (length header) row))"
  using load_table_print_lines [where fs = fs and fname = fname, OF assms]
  by (simp add: dict_zip_columns dict_zip_truncates)

lemma ragged_file_lines:
  "ragged_file = concat (map print_line [[''a'', ''b''], [''1''], [''1'', ''2'', ''3'']])"
  by (simp add: ragged_file_def print_line_def)

lemma ragged_file_printable:
  "list_all printable_row [[''a'', ''b''], [''1''], [''1'', ''2'', ''3'']]"
  by (simp add: printable_row_def tsv_safe_def plain_def TAB_def LF_def CR_def QUOTE_def
      field_limit_def)

theorem C3_load_zips_rows_of_any_length_witness:
  "[get_resource_file_path ''curators.tsv'' \<mapsto> ragged_file] (get_resource_file_path ''curators.tsv'')
     = Some (concat (map print_line ([''a'', ''b''] # [[''1''], [''1'', ''2'', ''3'']]))) \<and>
   list_all printable_row ([''a'', ''b''] # [[''1''], [''1'', ''2'', ''3'']]) \<and>
   load_table (get_resource_file_path ''curators.tsv'')
       [get_resource_file_path ''curators.tsv'' \<mapsto> ragged_file]
     = Inr (map (dict_zip [''a'', ''b'']) [[''1''], [''1'', ''2'', ''3'']]) \<and>
   dom (dict_zip [''a'', ''b''] [''1'']) = set (take (length [''1'']) [''a'', ''b'']) \<and>
   dict_zip [''a'', ''b''] [''1'', ''2'', ''3'']
     = dict_zip [''a'', ''b''] (take (length [''a'', ''b'']) [''1'', ''2'', ''3''])"
proof -
  have f: "[get_resource_file_path ''curators.tsv'' \<mapsto> ragged_file] (get_resource_file_path ''curators.tsv'')
     = Some (concat (map print_line ([''a'', ''b''] # [[''1''], [''1'', ''2'', ''3'']])))"
    by (simp only: ragged_file_lines fun_upd_same)
  show ?thesis
    using C3_load_zips_rows_of_any_length
        [where fs = "[get_resource_file_path ''curators.tsv'' \<mapsto> ragged_file]"
          and fname = "get_resource_file_path ''curators.tsv''", OF f ragged_file_printable]
      f ragged_file_printable
    by simp
qed

text \<open>
  The claim as stated fails: the header of \<open>ragged_file\<close> has two fields, its rows have one
  and three; the load returns both records and raises nothing.
\<close>

theorem C3_load_accepts_ragged_rows:
  "load_curators [get_resource_file_path ''curators.tsv'' \<mapsto> ragged_file]
     = Inr [[''a'' \<mapsto> ''1''], [''a'' \<mapsto> ''1'', ''b'' \<mapsto> ''2'']]"
proof -
  have "load_table (get_resource_file_path ''curators.tsv'')
       [get_resource_file_path ''curators.tsv'' \<mapsto> ragged_file]
     = Inr (map (dict_zip [''a'', ''b'']) [[''1''], [''1'', ''2'', ''3'']])"
    by (rule load_table_print_lines [OF _ ragged_file_printable])
      (simp only: ragged_file_lines fun_upd_same)
  then show ?thesis by (simp add: load_curators_def dict_zip_def)
qed

subsection \<open>The sort key and the canonical key\<close>

text \<open>
  Claim C4. For every record, the key that the write-time sort uses
  (\<open>mapping_sort_key\<close>) is the canonical 7-tuple that the deduplication set is built from
  (\<open>get_canonical_tuple\<close>, modelled from the spec); both raise \<^verbatim>\<open>KeyError\<close> for the same
  first missing column.
\<close>

theorem C4_sort_key_is_canonical_key: "mapping_sort_key r = get_canonical_tuple r"
  by (simp add: mapping_sort_key_def get_canonical_tuple_def KEY_COLUMNS_def and_then_def
      getitem_def split: option.splits)

subsection \<open>Filtering the predictions\<close>

lemma excluded_iff:
  "excluded F r \<longleftrightarrow>
     (\<exists>by_target by_source.
        F (the (r ''source prefix'')) = Some by_target \<and>
        by_target (the (r ''target prefix'')) = Some by_source \<and>
        by_source (the (r ''source identifier'')) = Some (the (r ''target identifier'')))"
  by (auto simp: excluded_def split: option.splits)

lemma check_filter_total:
  assumes "has_columns KEY_COLUMNS r"
  shows "check_filter r F = Inr (\<not> excluded F r)"
proof -
  have "\<forall>k\<in>set KEY_COLUMNS. getitem r k = Inr (the (r k))"
    using assms by (simp add: has_columns_getitem)
  then show ?thesis
    by (auto simp: KEY_COLUMNS_def check_filter_def and_then_Inr excluded_def get_or_empty_def
        split: option.splits)
qed

lemma checked_filter:
  "map snd (filter fst (map (\<lambda>p. (P p, p)) ps)) = filter P ps"
  by (induction ps) auto

lemma filter_predictions_table:
  assumes "table_holds Predictions ps fs"
  shows "filter_predictions F fs
       = Inr (fs(PREDICTIONS_PATH \<mapsto>
           table_text PREDICTIONS_HEADER (sort_key key_of (filter (\<lambda>r. \<not> excluded F r) ps))))"
proof -
  have ok: "rows_ok (header_of Predictions) ps" using assms by (rule table_holds_rows_ok)
  have cols: "list_all (has_columns (header_of Predictions)) ps"
    using ok by (rule rows_ok_has_columns)
  then have "\<forall>p\<in>set ps. check_filter p F = Inr (\<not> excluded F p)"
    using schema_key_columns [OF schema_header_of [of Predictions]]
    by (auto simp: list_all_iff intro: check_filter_total)
  then have "traverse (\<lambda>p. and_then (check_filter p F) (\<lambda>keep. Inr (keep, p))) ps
      = Inr (map (\<lambda>p. (\<not> excluded F p, p)) ps)"
    by (intro traverse_map) (simp add: and_then_Inr)
  moreover have "list_all (has_columns (header_of Predictions)) (filter (\<lambda>r. \<not> excluded F r) ps)"
    using cols by (simp add: list_all_iff)
  then have "write_rows Predictions (filter (\<lambda>r. \<not> excluded F r) ps) fs
      = Inr (fs(path_of Predictions \<mapsto>
           table_text (header_of Predictions) (sort_key key_of (filter (\<lambda>r. \<not> excluded F r) ps))))"
    by (rule write_rows_total)
  ultimately show ?thesis
    using table_holds_load [OF assms]
    by (simp add: filter_predictions_def and_then_Inr checked_filter)
qed

subsection \<open>Deduplication of incoming predictions\<close>

lemma predictions_after_append:
  assumes "table_holds Predictions ps fs" and "rows_ok PREDICTIONS_HEADER m"
  shows "\<exists>fs' rows. append_rows Predictions m sort_after fs = Inr fs' \<and>
           load_predictions fs' = Inr rows \<and>
           mset rows = mset ps + mset (map (stored PREDICTIONS_HEADER) m) \<and>
           fs' = fs(PREDICTIONS_PATH \<mapsto> table_text PREDICTIONS_HEADER
                   (if sort_after then sort_key key_of (ps @ m) else ps @ sort_key key_of m))"
proof -
  let ?H = "header_of Predictions"
  let ?new = "if sort_after then sort_key key_of (ps @ m) else ps @ sort_key key_of m"
  have ok: "rows_ok ?H ps" using assms(1) by (rule table_holds_rows_ok)
  have held: "fs (path_of Predictions) = Some (table_text ?H ps)"
    using assms(1) by (simp add: table_holds_def)
  have m: "rows_ok ?H m" using assms(2) by simp
  have app: "append_rows Predictions m sort_after fs
      = Inr (fs(path_of Predictions \<mapsto> table_text ?H ?new))"
    using append_rows_sorted_table_text [where fs = fs and T = Predictions, OF held ok m]
      append_rows_plain_table_text [where fs = fs and T = Predictions, OF held m]
    by (cases sort_after) simp_all
  have "rows_ok ?H ?new" using ok m by (simp add: rows_ok_append rows_ok_sort_key)
  then have load: "load_rows Predictions (fs(path_of Predictions \<mapsto> table_text ?H ?new))
      = Inr (map (stored ?H) ?new)"
    by (rule load_rows_update)
  have "mset (map (stored ?H) ?new) = mset (map (stored ?H) ps) + mset (map (stored ?H) m)"
    by simp
  also have "map (stored ?H) ps = ps" by (rule map_stored_table_holds [OF assms(1)])
  finally have "mset (map (stored ?H) ?new) = mset ps + mset (map (stored ?H) m)" .
  then show ?thesis using app load by simp
qed


lemma table_holds_other_file:
  assumes "path_of T \<noteq> path"
  shows "table_holds T rs (fs(path := u)) = table_holds T rs fs"
  using assms by (simp add: table_holds_def)

lemma append_predictions_dedup_holds:
  assumes "table_holds TrueMappings ts fs" and "table_holds FalseMappings fms fs"
    and "table_holds Predictions ps fs" and "rows_ok PREDICTIONS_HEADER m"
  shows "append_predictions get_canonical_tuple m True sort_after fs
       = append_rows Predictions
           (filter (\<lambda>p. key_of p \<notin> key_of ` set (ts @ fms @ ps)) m) sort_after fs"
proof -
  have "\<forall>r\<in>set m. get_canonical_tuple r = Inr (key_of r)"
    using assms(4) row_ok_canonical [of Predictions] by (simp add: rows_ok_def list_all_iff)
  then have "not_in_existing get_canonical_tuple (key_of ` set (ts @ fms @ ps)) m
      = Inr (filter (\<lambda>p. key_of p \<notin> key_of ` set (ts @ fms @ ps)) m)"
    by (rule not_in_existing_total)
  then show ?thesis
    using existing_mappings_holds [OF assms(1,2,3)]
    by (simp only: append_predictions_dedup and_then_Inr)
qed

lemma traverse_cong_set: "\<forall>x\<in>set xs. f x = g x \<Longrightarrow> traverse f xs = traverse g xs"
  by (induction xs) (auto split: sum.splits)

lemma canonical_ignores_names_and_confidence:
  "get_canonical_tuple (r(''confidence'' \<mapsto> c, ''source name'' \<mapsto> n, ''target name'' \<mapsto> t))
   = get_canonical_tuple r"
proof -
  have "traverse (getitem (r(''confidence'' \<mapsto> c, ''source name'' \<mapsto> n, ''target name'' \<mapsto> t)))
          KEY_COLUMNS
      = traverse (getitem r) KEY_COLUMNS"
    by (rule traverse_cong_set) (simp add: KEY_COLUMNS_def getitem_def)
  then show ?thesis by (simp only: get_canonical_tuple_def)
qed

lemma example_batch_ok': 
  "rows_ok PREDICTIONS_HEADER
     [example_prediction ''p'' ''other name'' ''0.5'', example_prediction ''a'' ''name 1'' ''0.5'']"
  using example_batch_ok by simp

subsection \<open>Duplicates within one batch\<close>

lemma pair_subset_filter:
  assumes "{#p, q#} \<subseteq># M" and "P p" and "P q"
  shows "{#p, q#} \<subseteq># filter_mset P M"
proof -
  have "filter_mset P {#p, q#} \<subseteq># filter_mset P M"
    using assms(1) by (rule multiset_filter_mono)
  then show ?thesis using assms(2,3) by simp
qed

lemma example_pair_ok:
  "rows_ok PREDICTIONS_HEADER
     [example_prediction ''a'' ''name 1'' ''0.5'', example_prediction ''a'' ''other name'' ''0.9'']"
  by (simp add: rows_ok_def record_of_row_ok record_of_example_prediction tsv_safe_literals)

lemma example_pair_appended:
  "append_predictions get_canonical_tuple
     [example_prediction ''a'' ''name 1'' ''0.5'', example_prediction ''a'' ''other name'' ''0.9'']
     True False example_store
   = Inr (example_store(PREDICTIONS_PATH \<mapsto> table_text PREDICTIONS_HEADER
       ([example_prediction ''p'' ''name 1'' ''0.9'']
        @ sort_key key_of [example_prediction ''a'' ''name 1'' ''0.5'',
                           example_prediction ''a'' ''other name'' ''0.9''])))"
proof -
  have "filter (\<lambda>p. key_of p \<notin> key_of ` set ([example_mapping ''x''] @ [example_mapping ''f'']
            @ [example_prediction ''p'' ''name 1'' ''0.9'']))
          [example_prediction ''a'' ''name 1'' ''0.5'', example_prediction ''a'' ''other name'' ''0.9'']
      = [example_prediction ''a'' ''name 1'' ''0.5'', example_prediction ''a'' ''other name'' ''0.9'']"
    by (simp add: key_of_example_mapping key_of_example_prediction)
  then have "append_predictions get_canonical_tuple
     [example_prediction ''a'' ''name 1'' ''0.5'', example_prediction ''a'' ''other name'' ''0.9'']
     True False example_store
     = append_rows Predictions
        [example_prediction ''a'' ''name 1'' ''0.5'', example_prediction ''a'' ''other name'' ''0.9'']
        False example_store"
    using append_predictions_dedup_holds [OF example_store_holds(1) example_store_holds(2)
        example_store_holds(4) example_pair_ok, of False]
    by simp
  moreover have "append_rows Predictions
        [example_prediction ''a'' ''name 1'' ''0.5'', example_prediction ''a'' ''other name'' ''0.9'']
        False example_store
     = Inr (example_store(path_of Predictions \<mapsto> table_text (header_of Predictions)
       ([example_prediction ''p'' ''name 1'' ''0.9'']
        @ sort_key key_of [example_prediction ''a'' ''name 1'' ''0.5'',
                           example_prediction ''a'' ''other name'' ''0.9''])))"
    using example_store_paths(4) example_pair_ok
    by (intro append_rows_plain_table_text) simp_all
  ultimately show ?thesis by simp
qed

subsection \<open>What a successful write, append or filter has written\<close>

lemma write_rows_Inr:
  assumes "write_rows T m fs = Inr fs'"
  shows "list_all (has_columns (header_of T)) m \<and>
         fs' = fs(path_of T \<mapsto> table_text (header_of T) (sort_key key_of m))"
proof -
  have cols: "list_all (has_columns (header_of T)) m"
    using assms write_helper_Inr by (simp add: write_rows_eq)
  then show ?thesis using assms by (simp add: write_rows_total)
qed

lemma append_rows_plain_Inr:
  assumes "append_rows T m False fs = Inr fs'"
  shows "list_all (has_columns (header_of T)) m \<and>
         fs' = fs(path_of T \<mapsto> open_for_writing (path_of T) A fs
                                  @ rows_text (header_of T) (sort_key key_of m))"
proof -
  have w: "write_helper (header_of T) m (path_of T) A fs = Inr fs'"
    using assms by (auto simp: append_rows_eq and_then_def split: sum.splits)
  then have cols: "list_all (has_columns (header_of T)) m" by (rule write_helper_Inr)
  then show ?thesis
    using w write_helper_total [OF schema_header_of cols, of "path_of T" A fs] by simp
qed

lemma append_rows_sorted_Inr:
  assumes "append_rows T m True fs = Inr fs'"
  shows "\<exists>fs1. append_rows T m False fs = Inr fs1 \<and> lint_rows T fs1 = Inr fs'"
  using assms by (auto simp: append_rows_eq and_then_def split: sum.splits)

lemma check_filter_Inr:
  assumes "check_filter r F = Inr keep"
  shows "keep = (\<not> excluded F r)"
  using assms
  by (auto simp: check_filter_def and_then_def getitem_def excluded_def get_or_empty_def
      split: option.splits)

lemma checked_kept:
  assumes "traverse (\<lambda>p. and_then (check_filter p F) (\<lambda>keep. Inr (keep, p))) ps = Inr checked"
  shows "map snd (filter fst checked) = filter (\<lambda>r. \<not> excluded F r) ps"
proof -
  have ps: "map snd checked = ps" and c: "\<forall>p\<in>set checked. check_filter (snd p) F = Inr (fst p)"
    using traverse_keyed_Inr [OF assms] by simp_all
  have "filter fst checked = filter (\<lambda>p. \<not> excluded F (snd p)) checked"
    using c check_filter_Inr by (intro filter_cong) auto
  then have "map snd (filter fst checked) = filter (\<lambda>r. \<not> excluded F r) (map snd checked)"
    by (simp add: filter_map comp_def)
  then show ?thesis by (simp add: ps)
qed

lemma filter_predictions_Inr:
  assumes "filter_predictions F fs = Inr fs'"
  shows "\<exists>loaded. load_predictions fs = Inr loaded \<and>
           fs' = fs(PREDICTIONS_PATH \<mapsto> table_text PREDICTIONS_HEADER
                   (sort_key key_of (filter (\<lambda>r. \<not> excluded F r) loaded)))"
proof -
  obtain loaded checked where l: "load_predictions fs = Inr loaded"
    and c: "traverse (\<lambda>p. and_then (check_filter p F) (\<lambda>keep. Inr (keep, p))) loaded = Inr checked"
    and w: "write_predictions (map snd (filter fst checked)) fs = Inr fs'"
    using assms by (auto simp: filter_predictions_def and_then_def split: sum.splits)
  have "write_rows Predictions (filter (\<lambda>r. \<not> excluded F r) loaded) fs = Inr fs'"
    using w by (simp add: checked_kept [OF c])
  then show ?thesis using l write_rows_Inr by fastforce
qed

lemma append_predictions_dedup_Inr:
  assumes "append_predictions gct m True sort_after fs = Inr fs'"
  shows "\<exists>K. existing_mappings gct fs = Inr K \<and>
           append_rows Predictions (filter (\<lambda>r. \<forall>k. gct r = Inr k \<longrightarrow> k \<notin> K) m) sort_after fs
             = Inr fs'"
proof -
  obtain K kept where K: "existing_mappings gct fs = Inr K"
    and kept: "not_in_existing gct K m = Inr kept"
    and app: "append_rows Predictions kept sort_after fs = Inr fs'"
    using assms by (auto simp: append_predictions_dedup and_then_def split: sum.splits)
  then show ?thesis using not_in_existing_Inr [OF kept] by auto
qed

subsection \<open>The predictions that a filter leaves\<close>

text \<open>
  Claim C5, as amended. For every predictions table whose file is the header line of the
  schema followed by one line per record, the records having exactly the columns of the
  schema with values that can be written and read back (no tab, no line end, no double
  quote at the start, within the field size limit), \<open>filter_predictions F\<close> returns, and
  of the records that remain in the predictions table none is excluded by \<open>F\<close>; a record
  of the table is kept exactly when \<open>F\<close> does not exclude it. The filter excludes a record
  exactly when it has an entry at all three levels (source prefix, target prefix, source
  identifier of the record) and the entry is the record's target identifier; a missing
  key at any level is no exclusion, and the check of a record that has the key columns
  returns a truth value for every filter, never an error. Besides, for every store on
  which the call returns, the predictions file it leaves is the text of the loaded
  records that the filter does not exclude, in canonical order.
\<close>

theorem C5_filter_removes_exactly_the_excluded:
  "(filter_predictions F fs = Inr fs' \<longrightarrow>
      (\<exists>loaded kept. load_predictions fs = Inr loaded \<and>
         kept = sort_key key_of (filter (\<lambda>r. \<not> excluded F r) loaded) \<and>
         fs' = fs(PREDICTIONS_PATH \<mapsto> table_text PREDICTIONS_HEADER kept) \<and>
         (\<forall>r\<in>set kept. \<not> excluded F r) \<and>
         (\<forall>r\<in>set loaded. r \<in> set kept \<longleftrightarrow> \<not> excluded F r))) \<and>
   (\<forall>r. excluded F r \<longleftrightarrow>
      (\<exists>by_target by_source.
         F (the (r ''source prefix'')) = Some by_target \<and>
         by_target (the (r ''target prefix'')) = Some by_source \<and>
         by_source (the (r ''source identifier'')) = Some (the (r ''target identifier'')))) \<and>
   (\<forall>r. has_columns KEY_COLUMNS r \<longrightarrow> check_filter r F = Inr (\<not> excluded F r)) \<and>
   (table_holds Predictions ps fs \<longrightarrow>
      (\<exists>fs'' rows. load_predictions fs = Inr ps \<and> filter_predictions F fs = Inr fs'' \<and>
         load_predictions fs'' = Inr rows \<and>
         rows = sort_key key_of (filter (\<lambda>r. \<not> excluded F r) ps) \<and>
         (\<forall>r\<in>set rows. \<not> excluded F r) \<and>
         (\<forall>r\<in>set ps. r \<in> set rows \<longleftrightarrow> \<not> excluded F r)))"
proof (intro conjI impI allI)
  assume "filter_predictions F fs = Inr fs'"
  then obtain loaded where l: "load_predictions fs = Inr loaded"
    and f: "fs' = fs(PREDICTIONS_PATH \<mapsto> table_text PREDICTIONS_HEADER
                   (sort_key key_of (filter (\<lambda>r. \<not> excluded F r) loaded)))"
    using filter_predictions_Inr by blast
  show "\<exists>loaded kept. load_predictions fs = Inr loaded \<and>
         kept = sort_key key_of (filter (\<lambda>r. \<not> excluded F r) loaded) \<and>
         fs' = fs(PREDICTIONS_PATH \<mapsto> table_text PREDICTIONS_HEADER kept) \<and>
         (\<forall>r\<in>set kept. \<not> excluded F r) \<and>
         (\<forall>r\<in>set loaded. r \<in> set kept \<longleftrightarrow> \<not> excluded F r)"
    using l f by (intro exI [of _ loaded] exI [of _ "sort_key key_of (filter (\<lambda>r. \<not> excluded F r) loaded)"]) simp
next
  fix r
  show "excluded F r \<longleftrightarrow>
      (\<exists>by_target by_source.
         F (the (r ''source prefix'')) = Some by_target \<and>
         by_target (the (r ''target prefix'')) = Some by_source \<and>
         by_source (the (r ''source identifier'')) = Some (the (r ''target identifier'')))"
    by (rule excluded_iff)
next
  fix r assume "has_columns KEY_COLUMNS r"
  then show "check_filter r F = Inr (\<not> excluded F r)" by (rule check_filter_total)
next
  assume h: "table_holds Predictions ps fs"
  let ?kept = "sort_key key_of (filter (\<lambda>r. \<not> excluded F r) ps)"
  have ok: "rows_ok (header_of Predictions) ps" using h by (rule table_holds_rows_ok)
  have recs: "\<forall>r\<in>set ps. record_of (header_of Predictions) r"
    using h by (simp add: table_holds_def list_all_iff)
  have "rows_ok (header_of Predictions) ?kept"
    using ok by (simp add: rows_ok_sort_key rows_ok_filter)
  then have "load_rows Predictions (fs(path_of Predictions \<mapsto> table_text (header_of Predictions) ?kept))
      = Inr (map (stored (header_of Predictions)) ?kept)"
    by (rule load_rows_update)
  moreover have "map (stored (header_of Predictions)) ?kept = ?kept"
    using recs by (intro map_idI) (simp add: stored_record_of)
  ultimately have "load_predictions (fs(PREDICTIONS_PATH \<mapsto> table_text PREDICTIONS_HEADER ?kept))
      = Inr ?kept" by simp
  then show "\<exists>fs'' rows. load_predictions fs = Inr ps \<and> filter_predictions F fs = Inr fs'' \<and>
         load_predictions fs'' = Inr rows \<and>
         rows = sort_key key_of (filter (\<lambda>r. \<not> excluded F r) ps) \<and>
         (\<forall>r\<in>set rows. \<not> excluded F r) \<and>
         (\<forall>r\<in>set ps. r \<in> set rows \<longleftrightarrow> \<not> excluded F r)"
    using filter_predictions_table [OF h, of F] table_holds_load [OF h] by simp
qed

lemma example_known_key_columns:
  "has_columns KEY_COLUMNS (example_prediction ''p'' ''name 1'' ''0.9'')"
  using record_of_example_prediction [of "''p''" "''name 1''" "''0.9''"] tsv_safe_literals
    schema_key_columns [OF schema_header_of [of Predictions] row_ok_has_columns]
  by (simp add: record_of_def)

lemma example_filter_excludes:
  "excluded example_filter (example_prediction ''p'' ''name 1'' ''0.9'')"
  by (simp add: excluded_def example_filter_def example_prediction_def dict_zip_def
      PREDICTIONS_HEADER_def)

subsection \<open>What a deduplicating append has appended\<close>

lemma append_predictions_dedup_written:
  assumes "append_predictions gct m True sort_after fs = Inr fs'"
  shows "\<exists>K fs1 batch. existing_mappings gct fs = Inr K \<and>
           append_predictions gct m True False fs = Inr fs1 \<and>
           fs1 = fs(PREDICTIONS_PATH \<mapsto> open_for_writing PREDICTIONS_PATH A fs
                                        @ rows_text PREDICTIONS_HEADER batch) \<and>
           (if sort_after then lint_predictions fs1 = Inr fs' else fs' = fs1) \<and>
           mset batch = mset (filter (\<lambda>r. \<forall>k. gct r = Inr k \<longrightarrow> k \<notin> K) m)"
proof -
  let ?P = "\<lambda>K r. \<forall>k. gct r = Inr k \<longrightarrow> k \<notin> K"
  obtain K kept where K: "existing_mappings gct fs = Inr K"
    and kept: "not_in_existing gct K m = Inr kept"
    and app: "append_rows Predictions kept sort_after fs = Inr fs'"
    using assms by (auto simp: append_predictions_dedup and_then_def split: sum.splits)
  have kept_eq: "kept = filter (?P K) m" using not_in_existing_Inr [OF kept] by simp
  have dedup: "\<And>s. append_predictions gct m True s fs = append_rows Predictions kept s fs"
    using K kept by (simp add: append_predictions_dedup and_then_Inr)
  obtain fs1 where plain: "append_rows Predictions kept False fs = Inr fs1"
    and after: "if sort_after then lint_rows Predictions fs1 = Inr fs' else fs' = fs1"
    using app append_rows_sorted_Inr [of Predictions kept fs fs'] by (cases sort_after) auto
  have "fs1 = fs(path_of Predictions \<mapsto> open_for_writing (path_of Predictions) A fs
                  @ rows_text (header_of Predictions) (sort_key key_of kept))"
    using append_rows_plain_Inr [OF plain] by simp
  moreover have "mset (sort_key key_of kept) = mset (filter (?P K) m)" by (simp add: kept_eq)
  ultimately show ?thesis
    using K plain after by (auto simp: dedup)
qed

lemma pair_in_reloaded_predictions:
  assumes "table_holds Predictions ps fs" and "rows_ok PREDICTIONS_HEADER m"
    and "append_predictions gct m True sort_after fs = Inr fs'"
  shows "\<exists>K rows. existing_mappings gct fs = Inr K \<and> load_predictions fs' = Inr rows \<and>
           (\<forall>p q k. {#p, q#} \<subseteq># mset m \<longrightarrow> gct p = Inr k \<longrightarrow> gct q = Inr k \<longrightarrow> k \<notin> K \<longrightarrow>
              {#stored PREDICTIONS_HEADER p, stored PREDICTIONS_HEADER q#} \<subseteq># mset rows)"
proof -
  obtain K kept where K: "existing_mappings gct fs = Inr K"
    and kept: "not_in_existing gct K m = Inr kept"
    and app: "append_rows Predictions kept sort_after fs = Inr fs'"
    using assms(3)
    by (auto simp: append_predictions_dedup and_then_def split: sum.splits)
  let ?P = "\<lambda>r. \<forall>k. gct r = Inr k \<longrightarrow> k \<notin> K"
  have kept_eq: "kept = filter ?P m" using not_in_existing_Inr [OF kept] by simp
  then have "rows_ok PREDICTIONS_HEADER kept" using assms(2) by (simp add: rows_ok_filter)
  then obtain rows where load: "load_predictions fs' = Inr rows"
    and m: "mset rows = mset ps + mset (map (stored PREDICTIONS_HEADER) kept)"
    using predictions_after_append [OF assms(1), of kept sort_after] app by auto
  have "\<forall>p q k. {#p, q#} \<subseteq># mset m \<longrightarrow> gct p = Inr k \<longrightarrow> gct q = Inr k \<longrightarrow> k \<notin> K \<longrightarrow>
      {#stored PREDICTIONS_HEADER p, stored PREDICTIONS_HEADER q#} \<subseteq># mset rows"
  proof (intro allI impI)
    fix p q k
    assume sub: "{#p, q#} \<subseteq># mset m" and p: "gct p = Inr k" and q: "gct q = Inr k" and k: "k \<notin> K"
    have "{#p, q#} \<subseteq># filter_mset ?P (mset m)"
      using sub p q k by (intro pair_subset_filter) simp_all
    then have "{#p, q#} \<subseteq># mset kept" by (simp add: kept_eq)
    then have "image_mset (stored PREDICTIONS_HEADER) {#p, q#}
        \<subseteq># image_mset (stored PREDICTIONS_HEADER) (mset kept)"
      by (rule image_mset_subseteq_mono)
    then show "{#stored PREDICTIONS_HEADER p, stored PREDICTIONS_HEADER q#} \<subseteq># mset rows"
      using m by (simp add: subset_mset.add_increasing)
  qed
  then show ?thesis using K load by blast
qed

text \<open>
  Claim C10. The deduplication checks the incoming records against the tables only.
  Whenever \<open>append_predictions\<close> with \<^verbatim>\<open>deduplicate=True\<close> returns, for any canonicalization
  function, the call has appended to the predictions file the lines of a batch in which
  any two incoming records (two occurrences in the incoming sequence) are both present
  when they share a canonical key that is the key of no record of the three consulted
  tables; with \<^verbatim>\<open>sort=True\<close> the file is then linted. When the predictions table holds
  records of the schema and the incoming records have writable values, both records
  are in the predictions table that is loaded after the call.
\<close>

theorem C10_duplicates_within_a_batch_are_both_appended:
  "(append_predictions gct m True sort_after fs = Inr fs' \<longrightarrow>
      (\<exists>K fs1 batch. existing_mappings gct fs = Inr K \<and>
         append_predictions gct m True False fs = Inr fs1 \<and>
         fs1 = fs(PREDICTIONS_PATH \<mapsto> open_for_writing PREDICTIONS_PATH A fs
                                      @ rows_text PREDICTIONS_HEADER batch) \<and>
         (if sort_after then lint_predictions fs1 = Inr fs' else fs' = fs1) \<and>
         (\<forall>p q k. {#p, q#} \<subseteq># mset m \<longrightarrow> gct p = Inr k \<longrightarrow> gct q = Inr k \<longrightarrow> k \<notin> K \<longrightarrow>
            {#p, q#} \<subseteq># mset batch))) \<and>
   (table_holds Predictions ps fs \<longrightarrow> rows_ok PREDICTIONS_HEADER m \<longrightarrow>
    append_predictions gct m True sort_after fs = Inr fs' \<longrightarrow>
      (\<exists>K rows. existing_mappings gct fs = Inr K \<and> load_predictions fs' = Inr rows \<and>
         (\<forall>p q k. {#p, q#} \<subseteq># mset m \<longrightarrow> gct p = Inr k \<longrightarrow> gct q = Inr k \<longrightarrow> k \<notin> K \<longrightarrow>
            {#stored PREDICTIONS_HEADER p, stored PREDICTIONS_HEADER q#} \<subseteq># mset rows)))"
proof (intro conjI impI)
  assume "append_predictions gct m True sort_after fs = Inr fs'"
  then obtain K fs1 batch where K: "existing_mappings gct fs = Inr K"
    and plain: "append_predictions gct m True False fs = Inr fs1"
    and fs1: "fs1 = fs(PREDICTIONS_PATH \<mapsto> open_for_writing PREDICTIONS_PATH A fs
                                      @ rows_text PREDICTIONS_HEADER batch)"
    and after: "if sort_after then lint_predictions fs1 = Inr fs' else fs' = fs1"
    and batch: "mset batch = mset (filter (\<lambda>r. \<forall>k. gct r = Inr k \<longrightarrow> k \<notin> K) m)"
    using append_predictions_dedup_written by blast
  have "\<forall>p q k. {#p, q#} \<subseteq># mset m \<longrightarrow> gct p = Inr k \<longrightarrow> gct q = Inr k \<longrightarrow> k \<notin> K \<longrightarrow>
      {#p, q#} \<subseteq># mset batch"
  proof (intro allI impI)
    fix p q k
    assume "{#p, q#} \<subseteq># mset m" and "gct p = Inr k" and "gct q = Inr k" and "k \<notin> K"
    then have "{#p, q#} \<subseteq># filter_mset (\<lambda>r. \<forall>k. gct r = Inr k \<longrightarrow> k \<notin> K) (mset m)"
      by (intro pair_subset_filter) simp_all
    then show "{#p, q#} \<subseteq># mset batch" by (simp add: batch)
  qed
  then show "\<exists>K fs1 batch. existing_mappings gct fs = Inr K \<and>
         append_predictions gct m True False fs = Inr fs1 \<and>
         fs1 = fs(PREDICTIONS_PATH \<mapsto> open_for_writing PREDICTIONS_PATH A fs
                                      @ rows_text PREDICTIONS_HEADER batch) \<and>
         (if sort_after then lint_predictions fs1 = Inr fs' else fs' = fs1) \<and>
         (\<forall>p q k. {#p, q#} \<subseteq># mset m \<longrightarrow> gct p = Inr k \<longrightarrow> gct q = Inr k \<longrightarrow> k \<notin> K \<longrightarrow>
            {#p, q#} \<subseteq># mset batch)"
    using K plain fs1 after by blast
next
  assume "table_holds Predictions ps fs" and "rows_ok PREDICTIONS_HEADER m"
    and "append_predictions gct m True sort_after fs = Inr fs'"
  then show "\<exists>K rows. existing_mappings gct fs = Inr K \<and> load_predictions fs' = Inr rows \<and>
         (\<forall>p q k. {#p, q#} \<subseteq># mset m \<longrightarrow> gct p = Inr k \<longrightarrow> gct q = Inr k \<longrightarrow> k \<notin> K \<longrightarrow>
            {#stored PREDICTIONS_HEADER p, stored PREDICTIONS_HEADER q#} \<subseteq># mset rows)"
    by (rule pair_in_reloaded_predictions)
qed

lemma example_pair_rows_ok: "rows_ok PREDICTIONS_HEADER example_pair"
  unfolding example_pair_def by (rule example_pair_ok)

lemma example_pair_keys:
  "get_canonical_tuple (example_prediction ''a'' ''name 1'' ''0.5'')
     = Inr (''a'', ''1'', ''skos:exactMatch'', ''t'', ''2'', ''lexical'', ''generator'')"
  "get_canonical_tuple (example_prediction ''a'' ''other name'' ''0.9'')
     = Inr (''a'', ''1'', ''skos:exactMatch'', ''t'', ''2'', ''lexical'', ''generator'')"
  using example_pair_ok row_ok_canonical [of Predictions]
  by (simp_all add: rows_ok_def key_of_example_prediction)

lemma example_existing_keys:
  "existing_mappings get_canonical_tuple example_store
   = Inr {(''x'', ''1'', ''skos:exactMatch'', ''t'', ''2'', ''manual'', ''orcid:0000''),
          (''f'', ''1'', ''skos:exactMatch'', ''t'', ''2'', ''manual'', ''orcid:0000''),
          (''p'', ''1'', ''skos:exactMatch'', ''t'', ''2'', ''lexical'', ''generator'')}"
  using example_existing by (simp add: key_of_example_mapping key_of_example_prediction)

theorem C10_duplicates_within_a_batch_are_both_appended_witness:
  "append_predictions get_canonical_tuple example_pair True False example_store
     = Inr (example_store(PREDICTIONS_PATH \<mapsto> table_text PREDICTIONS_HEADER
         ([example_prediction ''p'' ''name 1'' ''0.9''] @ sort_key key_of example_pair))) \<and>
   table_holds Predictions [example_prediction ''p'' ''name 1'' ''0.9''] example_store \<and>
   rows_ok PREDICTIONS_HEADER example_pair \<and>
   {#example_prediction ''a'' ''name 1'' ''0.5'', example_prediction ''a'' ''other name'' ''0.9''#}
     \<subseteq># mset example_pair \<and>
   get_canonical_tuple (example_prediction ''a'' ''name 1'' ''0.5'')
     = Inr (''a'', ''1'', ''skos:exactMatch'', ''t'', ''2'', ''lexical'', ''generator'') \<and>
   get_canonical_tuple (example_prediction ''a'' ''other name'' ''0.9'')
     = Inr (''a'', ''1'', ''skos:exactMatch'', ''t'', ''2'', ''lexical'', ''generator'') \<and>
   (\<exists>K. existing_mappings get_canonical_tuple example_store = Inr K \<and>
      (''a'', ''1'', ''skos:exactMatch'', ''t'', ''2'', ''lexical'', ''generator'') \<notin> K) \<and>
   (\<exists>batch.
      example_store(PREDICTIONS_PATH \<mapsto> table_text PREDICTIONS_HEADER
         ([example_prediction ''p'' ''name 1'' ''0.9''] @ sort_key key_of example_pair))
      = example_store(PREDICTIONS_PATH \<mapsto> open_for_writing PREDICTIONS_PATH A example_store
                                            @ rows_text PREDICTIONS_HEADER batch) \<and>
      {#example_prediction ''a'' ''name 1'' ''0.5'', example_prediction ''a'' ''other name'' ''0.9''#}
        \<subseteq># mset batch) \<and>
   (\<exists>rows.
      load_predictions (example_store(PREDICTIONS_PATH \<mapsto> table_text PREDICTIONS_HEADER
         ([example_prediction ''p'' ''name 1'' ''0.9''] @ sort_key key_of example_pair)))
        = Inr rows \<and>
      {#stored PREDICTIONS_HEADER (example_prediction ''a'' ''name 1'' ''0.5''),
        stored PREDICTIONS_HEADER (example_prediction ''a'' ''other name'' ''0.9'')#}
        \<subseteq># mset rows)"
proof -
  let ?a1 = "example_prediction ''a'' ''name 1'' ''0.5''"
  let ?a2 = "example_prediction ''a'' ''other name'' ''0.9''"
  let ?k = "(''a'', ''1'', ''skos:exactMatch'', ''t'', ''2'', ''lexical'', ''generator'')"
  let ?fs' = "example_store(PREDICTIONS_PATH \<mapsto> table_text PREDICTIONS_HEADER
         ([example_prediction ''p'' ''name 1'' ''0.9''] @ sort_key key_of example_pair))"
  have call: "append_predictions get_canonical_tuple example_pair True False example_store = Inr ?fs'"
    unfolding example_pair_def by (rule example_pair_appended)
  have sub: "{#?a1, ?a2#} \<subseteq># mset example_pair" by (simp add: example_pair_def)
  have new: "?k \<notin> {(''x'', ''1'', ''skos:exactMatch'', ''t'', ''2'', ''manual'', ''orcid:0000''),
          (''f'', ''1'', ''skos:exactMatch'', ''t'', ''2'', ''manual'', ''orcid:0000''),
          (''p'', ''1'', ''skos:exactMatch'', ''t'', ''2'', ''lexical'', ''generator'')}"
    by simp
  note inst = C10_duplicates_within_a_batch_are_both_appended
    [of get_canonical_tuple example_pair False example_store ?fs'
        "[example_prediction ''p'' ''name 1'' ''0.9'']"]
  from inst call obtain K fs1 batch where K: "existing_mappings get_canonical_tuple example_store = Inr K"
    and fs1: "append_predictions get_canonical_tuple example_pair True False example_store = Inr fs1"
      "fs1 = example_store(PREDICTIONS_PATH \<mapsto> open_for_writing PREDICTIONS_PATH A example_store
                                            @ rows_text PREDICTIONS_HEADER batch)"
    and b: "\<forall>p q k. {#p, q#} \<subseteq># mset example_pair \<longrightarrow> get_canonical_tuple p = Inr k \<longrightarrow>
        get_canonical_tuple q = Inr k \<longrightarrow> k \<notin> K \<longrightarrow> {#p, q#} \<subseteq># mset batch"
    by blast
  have K_eq: "?k \<notin> K" using K example_existing_keys new by simp
  have part1: "?fs' = example_store(PREDICTIONS_PATH \<mapsto> open_for_writing PREDICTIONS_PATH A example_store
                                            @ rows_text PREDICTIONS_HEADER batch)"
    using fs1 call by simp
  have in_batch: "{#?a1, ?a2#} \<subseteq># mset batch"
    using b sub example_pair_keys K_eq by blast
  from inst example_store_holds(4) example_pair_rows_ok call
  obtain K' rows where K': "existing_mappings get_canonical_tuple example_store = Inr K'"
    and load: "load_predictions ?fs' = Inr rows"
    and r: "\<forall>p q k. {#p, q#} \<subseteq># mset example_pair \<longrightarrow> get_canonical_tuple p = Inr k \<longrightarrow>
        get_canonical_tuple q = Inr k \<longrightarrow> k \<notin> K' \<longrightarrow>
        {#stored PREDICTIONS_HEADER p, stored PREDICTIONS_HEADER q#} \<subseteq># mset rows"
    by blast
  have "?k \<notin> K'" using K' example_existing_keys new by simp
  then have in_rows: "{#stored PREDICTIONS_HEADER ?a1, stored PREDICTIONS_HEADER ?a2#} \<subseteq># mset rows"
    using r sub example_pair_keys by blast
  show ?thesis
    using call example_store_holds(4) example_pair_rows_ok sub example_pair_keys K K_eq
      part1 in_batch load in_rows
    by blast
qed

subsection \<open>Incoming predictions that are already known\<close>

lemma known_predictions_reloaded:
  assumes "table_holds TrueMappings ts fs" and "table_holds FalseMappings fms fs"
    and "table_holds Predictions ps fs" and "rows_ok PREDICTIONS_HEADER m"
  shows "\<exists>fs' rows.
           append_predictions get_canonical_tuple m True sort_after fs = Inr fs' \<and>
           load_predictions fs' = Inr rows \<and>
           mset rows = mset ps + mset (map (stored PREDICTIONS_HEADER)
             (filter (\<lambda>p. key_of p \<notin> key_of ` set (ts @ fms @ ps)) m)) \<and>
           (\<forall>p\<in>set m. key_of p \<in> key_of ` set (ts @ fms @ ps) \<longrightarrow>
              length (filter (\<lambda>r. key_of r = key_of p) rows)
                = length (filter (\<lambda>r. key_of r = key_of p) ps)) \<and>
           (\<forall>r\<in>set (ts @ fms @ ps @ m). get_canonical_tuple r = Inr (key_of r)) \<and>
           (\<forall>u. \<exists>fs''.
              append_predictions get_canonical_tuple m True sort_after (fs(UNSURE_PATH := u))
                = Inr fs'' \<and>
              fs'' PREDICTIONS_PATH = fs' PREDICTIONS_PATH) \<and>
           (\<forall>r c n t.
              get_canonical_tuple (r(''confidence'' \<mapsto> c, ''source name'' \<mapsto> n, ''target name'' \<mapsto> t))
                = get_canonical_tuple r)"
proof -
  let ?K = "key_of ` set (ts @ fms @ ps)"
  let ?kept = "filter (\<lambda>p. key_of p \<notin> ?K) m"
  let ?text = "table_text PREDICTIONS_HEADER
                 (if sort_after then sort_key key_of (ps @ ?kept) else ps @ sort_key key_of ?kept)"
  have kept_ok: "rows_ok PREDICTIONS_HEADER ?kept" using assms(4) by (rule rows_ok_filter)
  obtain rows where app: "append_rows Predictions ?kept sort_after fs = Inr (fs(PREDICTIONS_PATH \<mapsto> ?text))"
    and load: "load_predictions (fs(PREDICTIONS_PATH \<mapsto> ?text)) = Inr rows"
    and m: "mset rows = mset ps + mset (map (stored PREDICTIONS_HEADER) ?kept)"
    using predictions_after_append [OF assms(3) kept_ok, of sort_after] by auto
  have call: "append_predictions get_canonical_tuple m True sort_after fs
      = Inr (fs(PREDICTIONS_PATH \<mapsto> ?text))"
    using app by (simp only: append_predictions_dedup_holds [OF assms])
  have count: "\<forall>p\<in>set m. key_of p \<in> ?K \<longrightarrow>
      length (filter (\<lambda>r. key_of r = key_of p) rows) = length (filter (\<lambda>r. key_of r = key_of p) ps)"
  proof (intro ballI impI)
    fix p assume "p \<in> set m" and k: "key_of p \<in> ?K"
    have "mset rows = mset (ps @ map (stored PREDICTIONS_HEADER) ?kept)" using m by simp
    then have "length (filter (\<lambda>r. key_of r = key_of p) rows)
        = length (filter (\<lambda>r. key_of r = key_of p) (ps @ map (stored PREDICTIONS_HEADER) ?kept))"
      by (rule filter_key_length_mset)
    moreover have e: "filter (\<lambda>r. key_of r = key_of p) (map (stored PREDICTIONS_HEADER) ?kept) = []"
      using k key_of_stored [OF schema_header_of [of Predictions]]
      by (auto simp: filter_empty_conv)
    ultimately show "length (filter (\<lambda>r. key_of r = key_of p) rows)
        = length (filter (\<lambda>r. key_of r = key_of p) ps)"
      by (simp only: filter_append e append_Nil2)
  qed
  have keys: "\<forall>r\<in>set (ts @ fms @ ps @ m). get_canonical_tuple r = Inr (key_of r)"
    using table_holds_canonical [OF assms(1)] table_holds_canonical [OF assms(2)]
      table_holds_canonical [OF assms(3)] assms(4) row_ok_canonical [of Predictions]
    by (auto simp: rows_ok_def list_all_iff)
  have unsure: "\<forall>u. \<exists>fs''.
      append_predictions get_canonical_tuple m True sort_after (fs(UNSURE_PATH := u)) = Inr fs'' \<and>
      fs'' PREDICTIONS_PATH = (fs(PREDICTIONS_PATH \<mapsto> ?text)) PREDICTIONS_PATH"
  proof
    fix u
    let ?fs = "fs(UNSURE_PATH := u)"
    have t: "table_holds TrueMappings ts ?fs" and f: "table_holds FalseMappings fms ?fs"
      and p: "table_holds Predictions ps ?fs"
      using assms(1,2,3) paths_distinct by (simp_all add: table_holds_other_file)
    obtain rows' where "append_rows Predictions ?kept sort_after ?fs = Inr (?fs(PREDICTIONS_PATH \<mapsto> ?text))"
      using predictions_after_append [OF p kept_ok, of sort_after] by auto
    then have "append_predictions get_canonical_tuple m True sort_after ?fs
        = Inr (?fs(PREDICTIONS_PATH \<mapsto> ?text))"
      by (simp only: append_predictions_dedup_holds [OF t f p assms(4)])
    then show "\<exists>fs''. append_predictions get_canonical_tuple m True sort_after ?fs = Inr fs'' \<and>
        fs'' PREDICTIONS_PATH = (fs(PREDICTIONS_PATH \<mapsto> ?text)) PREDICTIONS_PATH"
      by simp
  qed
  show ?thesis
    using call load m count keys unsure canonical_ignores_names_and_confidence
    by (intro exI [of _ "fs(PREDICTIONS_PATH \<mapsto> ?text)"] exI [of _ rows]) blast
qed

lemma known_prediction_membership:
  assumes "mset rows = mset ps + mset (map (stored PREDICTIONS_HEADER) kept)"
    and "\<forall>r\<in>set kept. key_of r \<notin> K" and "key_of p \<in> K"
  shows "stored PREDICTIONS_HEADER p \<in> set rows \<longleftrightarrow> stored PREDICTIONS_HEADER p \<in> set ps"
proof -
  have "set rows = set ps \<union> stored PREDICTIONS_HEADER ` set kept"
    using assms(1) by (metis mset_append set_append set_map set_mset_mset)
  moreover have "stored PREDICTIONS_HEADER p \<notin> stored PREDICTIONS_HEADER ` set kept"
  proof
    assume "stored PREDICTIONS_HEADER p \<in> stored PREDICTIONS_HEADER ` set kept"
    then obtain r where r: "r \<in> set kept" "stored PREDICTIONS_HEADER p = stored PREDICTIONS_HEADER r"
      by auto
    then have "key_of p = key_of r"
      using key_of_stored [OF schema_header_of [of Predictions]] by (metis header_of.simps(1))
    then show False using assms(2,3) r(1) by auto
  qed
  ultimately show ?thesis by simp
qed

text \<open>
  Claim C1, as amended. For every call of \<open>append_predictions\<close> with \<^verbatim>\<open>deduplicate=True\<close>
  where the files of the true-mappings, false-mappings and predictions tables are each
  the header line of the schema followed by one line per record, the records having
  exactly the columns of the schema, and where the incoming records have the columns
  of the predictions schema, all values being such that they can be written and read
  back (no tab, no line end, no double quote at the start, within the field size
  limit): the call returns (with the canonical key modelled from the spec), and every
  incoming record whose canonical key is the key of a record of one of the three tables
  is dropped, that is, not added. The predictions table loaded after the call holds the
  records it held before and the incoming records with a new key, so the number of
  records with the key of a dropped record is what it was before, and the dropped record
  is absent from the table unless the table held an identical record before the call.
  The unsure table is not consulted: whatever the unsure file holds, the predictions
  file afterwards is the same. The canonical key does not depend on the confidence and
  the names. Besides, whenever the call returns, for any canonicalization function and
  any store, the batch whose lines the call has appended to the predictions file is the
  incoming records whose key is in none of the three tables.
\<close>

theorem C1_known_predictions_are_not_added:
  "(append_predictions gct m True sort_after fs = Inr fs' \<longrightarrow>
      (\<exists>K fs1 batch. existing_mappings gct fs = Inr K \<and>
         append_predictions gct m True False fs = Inr fs1 \<and>
         fs1 = fs(PREDICTIONS_PATH \<mapsto> open_for_writing PREDICTIONS_PATH A fs
                                      @ rows_text PREDICTIONS_HEADER batch) \<and>
         (if sort_after then lint_predictions fs1 = Inr fs' else fs' = fs1) \<and>
         mset batch = mset (filter (\<lambda>r. \<forall>k. gct r = Inr k \<longrightarrow> k \<notin> K) m) \<and>
         (\<forall>p k. gct p = Inr k \<longrightarrow> k \<in> K \<longrightarrow> p \<notin> set batch))) \<and>
   (table_holds TrueMappings ts fs \<longrightarrow> table_holds FalseMappings fms fs \<longrightarrow>
    table_holds Predictions ps fs \<longrightarrow> rows_ok PREDICTIONS_HEADER m \<longrightarrow>
      (\<exists>fs'' rows.
         append_predictions get_canonical_tuple m True sort_after fs = Inr fs'' \<and>
         load_predictions fs = Inr ps \<and>
         load_predictions fs'' = Inr rows \<and>
         mset rows = mset ps + mset (map (stored PREDICTIONS_HEADER)
           (filter (\<lambda>p. key_of p \<notin> key_of ` set (ts @ fms @ ps)) m)) \<and>
         (\<forall>p\<in>set m. key_of p \<in> key_of ` set (ts @ fms @ ps) \<longrightarrow>
            length (filter (\<lambda>r. key_of r = key_of p) rows)
              = length (filter (\<lambda>r. key_of r = key_of p) ps) \<and>
            (stored PREDICTIONS_HEADER p \<in> set rows \<longleftrightarrow> stored PREDICTIONS_HEADER p \<in> set ps)) \<and>
         (\<forall>r\<in>set (ts @ fms @ ps @ m). get_canonical_tuple r = Inr (key_of r)) \<and>
         (\<forall>u. \<exists>fs1.
            append_predictions get_canonical_tuple m True sort_after (fs(UNSURE_PATH := u))
              = Inr fs1 \<and>
            fs1 PREDICTIONS_PATH = fs'' PREDICTIONS_PATH))) \<and>
   (\<forall>r c n t.
      get_canonical_tuple (r(''confidence'' \<mapsto> c, ''source name'' \<mapsto> n, ''target name'' \<mapsto> t))
        = get_canonical_tuple r)"
proof (intro conjI impI allI)
  assume "append_predictions gct m True sort_after fs = Inr fs'"
  then obtain K fs1 batch where K: "existing_mappings gct fs = Inr K"
    and plain: "append_predictions gct m True False fs = Inr fs1"
    and fs1: "fs1 = fs(PREDICTIONS_PATH \<mapsto> open_for_writing PREDICTIONS_PATH A fs
                                      @ rows_text PREDICTIONS_HEADER batch)"
    and after: "if sort_after then lint_predictions fs1 = Inr fs' else fs' = fs1"
    and batch: "mset batch = mset (filter (\<lambda>r. \<forall>k. gct r = Inr k \<longrightarrow> k \<notin> K) m)"
    using append_predictions_dedup_written by blast
  have "set batch = set (filter (\<lambda>r. \<forall>k. gct r = Inr k \<longrightarrow> k \<notin> K) m)"
    using batch by (rule mset_eq_setD)
  then have "\<forall>p k. gct p = Inr k \<longrightarrow> k \<in> K \<longrightarrow> p \<notin> set batch" by auto
  then show "\<exists>K fs1 batch. existing_mappings gct fs = Inr K \<and>
         append_predictions gct m True False fs = Inr fs1 \<and>
         fs1 = fs(PREDICTIONS_PATH \<mapsto> open_for_writing PREDICTIONS_PATH A fs
                                      @ rows_text PREDICTIONS_HEADER batch) \<and>
         (if sort_after then lint_predictions fs1 = Inr fs' else fs' = fs1) \<and>
         mset batch = mset (filter (\<lambda>r. \<forall>k. gct r = Inr k \<longrightarrow> k \<notin> K) m) \<and>
         (\<forall>p k. gct p = Inr k \<longrightarrow> k \<in> K \<longrightarrow> p \<notin> set batch)"
    using K plain fs1 after batch by blast
next
  assume t: "table_holds TrueMappings ts fs" and f: "table_holds FalseMappings fms fs"
    and p: "table_holds Predictions ps fs" and m: "rows_ok PREDICTIONS_HEADER m"
  let ?K = "key_of ` set (ts @ fms @ ps)"
  let ?kept = "filter (\<lambda>p. key_of p \<notin> ?K) m"
  obtain fs'' rows where call: "append_predictions get_canonical_tuple m True sort_after fs = Inr fs''"
    and load: "load_predictions fs'' = Inr rows"
    and ms: "mset rows = mset ps + mset (map (stored PREDICTIONS_HEADER) ?kept)"
    and count: "\<forall>p\<in>set m. key_of p \<in> ?K \<longrightarrow>
              length (filter (\<lambda>r. key_of r = key_of p) rows)
                = length (filter (\<lambda>r. key_of r = key_of p) ps)"
    and keys: "\<forall>r\<in>set (ts @ fms @ ps @ m). get_canonical_tuple r = Inr (key_of r)"
    and unsure: "\<forall>u. \<exists>fs1.
              append_predictions get_canonical_tuple m True sort_after (fs(UNSURE_PATH := u))
                = Inr fs1 \<and>
              fs1 PREDICTIONS_PATH = fs'' PREDICTIONS_PATH"
    using known_predictions_reloaded [OF t f p m, of sort_after] by blast
  have member: "\<forall>p\<in>set m. key_of p \<in> ?K \<longrightarrow>
      (stored PREDICTIONS_HEADER p \<in> set rows \<longleftrightarrow> stored PREDICTIONS_HEADER p \<in> set ps)"
    using known_prediction_membership [OF ms, of ?K] by simp
  have before: "load_predictions fs = Inr ps" using table_holds_load [OF p] by simp
  show "\<exists>fs'' rows.
         append_predictions get_canonical_tuple m True sort_after fs = Inr fs'' \<and>
         load_predictions fs = Inr ps \<and>
         load_predictions fs'' = Inr rows \<and>
         mset rows = mset ps + mset (map (stored PREDICTIONS_HEADER)
           (filter (\<lambda>p. key_of p \<notin> key_of ` set (ts @ fms @ ps)) m)) \<and>
         (\<forall>p\<in>set m. key_of p \<in> key_of ` set (ts @ fms @ ps) \<longrightarrow>
            length (filter (\<lambda>r. key_of r = key_of p) rows)
              = length (filter (\<lambda>r. key_of r = key_of p) ps) \<and>
            (stored PREDICTIONS_HEADER p \<in> set rows \<longleftrightarrow> stored PREDICTIONS_HEADER p \<in> set ps)) \<and>
         (\<forall>r\<in>set (ts @ fms @ ps @ m). get_canonical_tuple r = Inr (key_of r)) \<and>
         (\<forall>u. \<exists>fs1.
            append_predictions get_canonical_tuple m True sort_after (fs(UNSURE_PATH := u))
              = Inr fs1 \<and>
            fs1 PREDICTIONS_PATH = fs'' PREDICTIONS_PATH)"
    using call before load ms count member keys unsure
    by (intro exI [of _ fs''] exI [of _ rows]) blast
next
  fix r c n t
  show "get_canonical_tuple (r(''confidence'' \<mapsto> c, ''source name'' \<mapsto> n, ''target name'' \<mapsto> t))
        = get_canonical_tuple r"
    by (rule canonical_ignores_names_and_confidence)
qed

lemma example_batch_rows_ok: "rows_ok PREDICTIONS_HEADER example_batch"
  unfolding example_batch_def by (rule example_batch_ok')

lemma example_batch_appended:
  "append_predictions get_canonical_tuple example_batch True False example_store
   = Inr (example_store(PREDICTIONS_PATH \<mapsto> table_text PREDICTIONS_HEADER
       [example_prediction ''p'' ''name 1'' ''0.9'', example_prediction ''a'' ''name 1'' ''0.5'']))"
proof -
  have "filter (\<lambda>p. key_of p \<notin> key_of ` set ([example_mapping ''x''] @ [example_mapping ''f'']
            @ [example_prediction ''p'' ''name 1'' ''0.9''])) example_batch
      = [example_prediction ''a'' ''name 1'' ''0.5'']"
    by (simp add: example_batch_def key_of_example_mapping key_of_example_prediction)
  then have "append_predictions get_canonical_tuple example_batch True False example_store
     = append_rows Predictions [example_prediction ''a'' ''name 1'' ''0.5''] False example_store"
    using append_predictions_dedup_holds [OF example_store_holds(1) example_store_holds(2)
        example_store_holds(4) example_batch_rows_ok, of False]
    by simp
  moreover have "append_rows Predictions [example_prediction ''a'' ''name 1'' ''0.5''] False example_store
     = Inr (example_store(path_of Predictions \<mapsto> table_text (header_of Predictions)
       ([example_prediction ''p'' ''name 1'' ''0.9'']
        @ sort_key key_of [example_prediction ''a'' ''name 1'' ''0.5''])))"
    using example_store_paths(4)
    by (intro append_rows_plain_table_text)
      (simp_all add: rows_ok_def record_of_row_ok record_of_example_prediction tsv_safe_literals)
  ultimately show ?thesis by simp
qed

lemma example_known_key:
  "get_canonical_tuple (example_prediction ''p'' ''other name'' ''0.5'')
     = Inr (''p'', ''1'', ''skos:exactMatch'', ''t'', ''2'', ''lexical'', ''generator'')"
  "get_canonical_tuple (example_prediction ''p'' ''name 1'' ''0.9'')
     = Inr (''p'', ''1'', ''skos:exactMatch'', ''t'', ''2'', ''lexical'', ''generator'')"
  using example_batch_ok' table_holds_canonical [OF example_store_holds(4)]
    row_ok_canonical [of Predictions]
  by (simp_all add: rows_ok_def key_of_example_prediction)

theorem C1_known_predictions_are_not_added_witness:
  "append_predictions get_canonical_tuple example_batch True False example_store
     = Inr (example_store(PREDICTIONS_PATH \<mapsto> table_text PREDICTIONS_HEADER
         [example_prediction ''p'' ''name 1'' ''0.9'', example_prediction ''a'' ''name 1'' ''0.5''])) \<and>
   table_holds TrueMappings [example_mapping ''x''] example_store \<and>
   table_holds FalseMappings [example_mapping ''f''] example_store \<and>
   table_holds Predictions [example_prediction ''p'' ''name 1'' ''0.9''] example_store \<and>
   rows_ok PREDICTIONS_HEADER example_batch \<and>
   get_canonical_tuple (example_prediction ''p'' ''other name'' ''0.5'')
     = Inr (''p'', ''1'', ''skos:exactMatch'', ''t'', ''2'', ''lexical'', ''generator'') \<and>
   (\<exists>K batch. existing_mappings get_canonical_tuple example_store = Inr K \<and>
      (''p'', ''1'', ''skos:exactMatch'', ''t'', ''2'', ''lexical'', ''generator'') \<in> K \<and>
      example_store(PREDICTIONS_PATH \<mapsto> table_text PREDICTIONS_HEADER
         [example_prediction ''p'' ''name 1'' ''0.9'', example_prediction ''a'' ''name 1'' ''0.5''])
      = example_store(PREDICTIONS_PATH \<mapsto> open_for_writing PREDICTIONS_PATH A example_store
                                            @ rows_text PREDICTIONS_HEADER batch) \<and>
      example_prediction ''p'' ''other name'' ''0.5'' \<notin> set batch) \<and>
   (\<exists>rows.
      load_predictions (example_store(PREDICTIONS_PATH \<mapsto> table_text PREDICTIONS_HEADER
         [example_prediction ''p'' ''name 1'' ''0.9'', example_prediction ''a'' ''name 1'' ''0.5'']))
        = Inr rows \<and>
      mset rows = mset [example_prediction ''p'' ''name 1'' ''0.9'']
        + mset (map (stored PREDICTIONS_HEADER)
            (filter (\<lambda>p. key_of p \<notin> key_of ` set ([example_mapping ''x''] @ [example_mapping ''f'']
                        @ [example_prediction ''p'' ''name 1'' ''0.9''])) example_batch)))"
proof -
  let ?fs' = "example_store(PREDICTIONS_PATH \<mapsto> table_text PREDICTIONS_HEADER
         [example_prediction ''p'' ''name 1'' ''0.9'', example_prediction ''a'' ''name 1'' ''0.5''])"
  let ?k = "(''p'', ''1'', ''skos:exactMatch'', ''t'', ''2'', ''lexical'', ''generator'')"
  note inst = C1_known_predictions_are_not_added
    [of get_canonical_tuple example_batch False example_store ?fs'
        "[example_mapping ''x'']" "[example_mapping ''f'']"
        "[example_prediction ''p'' ''name 1'' ''0.9'']"]
  from inst example_batch_appended
  obtain K fs1 batch where K: "existing_mappings get_canonical_tuple example_store = Inr K"
    and fs1: "append_predictions get_canonical_tuple example_batch True False example_store = Inr fs1"
      "fs1 = example_store(PREDICTIONS_PATH \<mapsto> open_for_writing PREDICTIONS_PATH A example_store
                                            @ rows_text PREDICTIONS_HEADER batch)"
    and b: "\<forall>p k. get_canonical_tuple p = Inr k \<longrightarrow> k \<in> K \<longrightarrow> p \<notin> set batch"
    by blast
  have "K = {(''x'', ''1'', ''skos:exactMatch'', ''t'', ''2'', ''manual'', ''orcid:0000''),
          (''f'', ''1'', ''skos:exactMatch'', ''t'', ''2'', ''manual'', ''orcid:0000''),
          (''p'', ''1'', ''skos:exactMatch'', ''t'', ''2'', ''lexical'', ''generator'')}"
    using K example_existing_keys by simp
  then have k: "?k \<in> K" by simp
  have part1: "?fs' = example_store(PREDICTIONS_PATH \<mapsto> open_for_writing PREDICTIONS_PATH A example_store
                                            @ rows_text PREDICTIONS_HEADER batch)"
    using fs1 example_batch_appended by simp
  have dropped: "example_prediction ''p'' ''other name'' ''0.5'' \<notin> set batch"
    using b example_known_key(1) k by blast
  from inst example_store_holds(1) example_store_holds(2) example_store_holds(4)
    example_batch_rows_ok
  obtain fs'' rows where call: "append_predictions get_canonical_tuple example_batch True False
        example_store = Inr fs''"
    and load: "load_predictions fs'' = Inr rows"
    and ms: "mset rows = mset [example_prediction ''p'' ''name 1'' ''0.9'']
        + mset (map (stored PREDICTIONS_HEADER)
            (filter (\<lambda>p. key_of p \<notin> key_of ` set ([example_mapping ''x''] @ [example_mapping ''f'']
                        @ [example_prediction ''p'' ''name 1'' ''0.9''])) example_batch))"
    by blast
  have "fs'' = ?fs'" using call example_batch_appended by simp
  then show ?thesis
    using example_batch_appended example_store_holds(1) example_store_holds(2)
      example_store_holds(4) example_batch_rows_ok example_known_key(1) K k part1 dropped load ms
    by blast
qed

subsection \<open>The order of the records that a call writes\<close>

lemma sorted_after_write_paths_reloaded:
  assumes "table_holds T rs fs" and "rows_ok (header_of T) m"
  shows "(\<exists>fs' rows. write_rows T m fs = Inr fs' \<and> load_rows T fs' = Inr rows \<and>
            sorted (map key_of rows)) \<and>
         (\<exists>fs' rows. lint_rows T fs = Inr fs' \<and> load_rows T fs' = Inr rows \<and>
            sorted (map key_of rows)) \<and>
         (\<exists>fs' rows. append_rows T m True fs = Inr fs' \<and> load_rows T fs' = Inr rows \<and>
            sorted (map key_of rows)) \<and>
         (\<exists>fs' new. append_rows T m False fs = Inr fs' \<and> load_rows T fs' = Inr (rs @ new) \<and>
            mset new = mset (map (stored (header_of T)) m) \<and> sorted (map key_of new) \<and>
            (sorted (map key_of (rs @ new)) \<longleftrightarrow>
               sorted (map key_of rs) \<and> (\<forall>r\<in>set rs. \<forall>n\<in>set new. key_of r \<le> key_of n)))"
proof (intro conjI)
  let ?H = "header_of T"
  have ok: "rows_ok ?H rs" using assms(1) by (rule table_holds_rows_ok)
  have held: "fs (path_of T) = Some (table_text ?H rs)" using assms(1) by (simp add: table_holds_def)
  have "write_rows T m fs = Inr (fs(path_of T \<mapsto> table_text ?H (sort_key key_of m)))"
    using rows_ok_has_columns [OF assms(2)] by (rule write_rows_total)
  then show "\<exists>fs' rows. write_rows T m fs = Inr fs' \<and> load_rows T fs' = Inr rows \<and>
            sorted (map key_of rows)"
    using sorted_after_update [OF assms(2)] by simp
  have "lint_rows T fs = Inr (fs(path_of T \<mapsto> table_text ?H (sort_key key_of rs)))"
    using held ok by (rule lint_rows_table_text)
  then show "\<exists>fs' rows. lint_rows T fs = Inr fs' \<and> load_rows T fs' = Inr rows \<and>
            sorted (map key_of rows)"
    using sorted_after_update [OF ok] by simp
  have both: "rows_ok ?H (rs @ m)" using ok assms(2) by (simp add: rows_ok_append)
  have "append_rows T m True fs = Inr (fs(path_of T \<mapsto> table_text ?H (sort_key key_of (rs @ m))))"
    using held ok assms(2) by (rule append_rows_sorted_table_text)
  then show "\<exists>fs' rows. append_rows T m True fs = Inr fs' \<and> load_rows T fs' = Inr rows \<and>
            sorted (map key_of rows)"
    using sorted_after_update [OF both] by simp
  let ?new = "map (stored ?H) (sort_key key_of m)"
  have plain: "append_rows T m False fs
      = Inr (fs(path_of T \<mapsto> table_text ?H (rs @ sort_key key_of m)))"
    using held assms(2) by (rule append_rows_plain_table_text)
  have "load_rows T (fs(path_of T \<mapsto> table_text ?H (rs @ sort_key key_of m)))
      = Inr (map (stored ?H) (rs @ sort_key key_of m))"
    using ok assms(2) by (intro load_rows_update) (simp add: rows_ok_append rows_ok_sort_key)
  then have loaded: "load_rows T (fs(path_of T \<mapsto> table_text ?H (rs @ sort_key key_of m)))
      = Inr (rs @ ?new)"
    by (simp add: map_stored_table_holds [OF assms(1)])
  have perm: "mset ?new = mset (map (stored ?H) m)" by simp
  have srt: "sorted (map key_of ?new)" by (rule sorted_stored_sort_key)
  have "sorted (map key_of (rs @ ?new)) \<longleftrightarrow>
          sorted (map key_of rs) \<and> (\<forall>r\<in>set rs. \<forall>n\<in>set ?new. key_of r \<le> key_of n)"
    using srt by (auto simp: sorted_append)
  then show "\<exists>fs' new. append_rows T m False fs = Inr fs' \<and> load_rows T fs' = Inr (rs @ new) \<and>
            mset new = mset (map (stored (header_of T)) m) \<and> sorted (map key_of new) \<and>
            (sorted (map key_of (rs @ new)) \<longleftrightarrow>
               sorted (map key_of rs) \<and> (\<forall>r\<in>set rs. \<forall>n\<in>set new. key_of r \<le> key_of n))"
    using plain loaded perm srt by blast
qed

text \<open>
  Claim C2, as amended. For every table whose file is the header line of the schema
  followed by one line per record, the records having exactly the columns of the schema,
  and every list of records to write or append that have the columns of the schema, all
  values being such that they can be written and read back (no tab, no line end, no
  double quote at the start, within the field size limit): write, lint and append with
  \<^verbatim>\<open>sort=True\<close> return, and the records of the table file afterwards are non-decreasing in
  the canonical key. A plain append (\<^verbatim>\<open>sort=False\<close>) returns and leaves the old records
  followed by the batch, which is sorted among itself; the old records are not
  reordered, so the table is non-decreasing exactly when the old records were and no old
  record has a greater key than a record of the batch. Besides, for every store on which
  write, lint or append with \<^verbatim>\<open>sort=True\<close> returns, the file it leaves is the header line
  followed by the lines of records that are non-decreasing in the canonical key, and
  whenever a plain append returns, the file is its old content followed by the lines of
  the batch, sorted among itself. Here \<open>key_of\<close> is the value of \<open>mapping_sort_key\<close> on a
  record that has the key columns (lemma \<open>mapping_sort_key_total\<close>).
\<close>

theorem C2_sorted_after_write_paths:
  "(write_rows T m fs = Inr fs' \<longrightarrow>
      (\<exists>rows. fs' = fs(path_of T \<mapsto> table_text (header_of T) rows) \<and>
         mset rows = mset m \<and> sorted (map key_of rows))) \<and>
   (lint_rows T fs = Inr fs' \<longrightarrow>
      (\<exists>loaded rows. load_rows T fs = Inr loaded \<and>
         fs' = fs(path_of T \<mapsto> table_text (header_of T) rows) \<and>
         mset rows = mset loaded \<and> sorted (map key_of rows))) \<and>
   (append_rows T m True fs = Inr fs' \<longrightarrow>
      (\<exists>rows. fs' (path_of T) = Some (table_text (header_of T) rows) \<and>
         sorted (map key_of rows))) \<and>
   (append_rows T m False fs = Inr fs' \<longrightarrow>
      (\<exists>batch. fs' = fs(path_of T \<mapsto> open_for_writing (path_of T) A fs
                                        @ rows_text (header_of T) batch) \<and>
         mset batch = mset m \<and> sorted (map key_of batch))) \<and>
   (table_holds T rs fs \<longrightarrow> rows_ok (header_of T) m \<longrightarrow>
      (\<exists>fs1 rows. write_rows T m fs = Inr fs1 \<and> load_rows T fs1 = Inr rows \<and>
          sorted (map key_of rows)) \<and>
      (\<exists>fs1 rows. lint_rows T fs = Inr fs1 \<and> load_rows T fs1 = Inr rows \<and>
          sorted (map key_of rows)) \<and>
      (\<exists>fs1 rows. append_rows T m True fs = Inr fs1 \<and> load_rows T fs1 = Inr rows \<and>
          sorted (map key_of rows)) \<and>
      (\<exists>fs1 new. append_rows T m False fs = Inr fs1 \<and> load_rows T fs1 = Inr (rs @ new) \<and>
          mset new = mset (map (stored (header_of T)) m) \<and> sorted (map key_of new) \<and>
          (sorted (map key_of (rs @ new)) \<longleftrightarrow>
             sorted (map key_of rs) \<and> (\<forall>r\<in>set rs. \<forall>n\<in>set new. key_of r \<le> key_of n))))"
proof (intro conjI impI)
  assume "write_rows T m fs = Inr fs'"
  then have "fs' = fs(path_of T \<mapsto> table_text (header_of T) (sort_key key_of m))"
    using write_rows_Inr by blast
  then show "\<exists>rows. fs' = fs(path_of T \<mapsto> table_text (header_of T) rows) \<and>
         mset rows = mset m \<and> sorted (map key_of rows)"
    by (intro exI [of _ "sort_key key_of m"]) simp
next
  assume "lint_rows T fs = Inr fs'"
  then obtain loaded where "load_rows T fs = Inr loaded"
    and "fs' = fs(path_of T \<mapsto> table_text (header_of T) (sort_key key_of loaded))"
    using lint_rows_Inr by blast
  then show "\<exists>loaded rows. load_rows T fs = Inr loaded \<and>
         fs' = fs(path_of T \<mapsto> table_text (header_of T) rows) \<and>
         mset rows = mset loaded \<and> sorted (map key_of rows)"
    by (intro exI [of _ loaded] exI [of _ "sort_key key_of loaded"]) simp
next
  assume "append_rows T m True fs = Inr fs'"
  then obtain fs1 where "lint_rows T fs1 = Inr fs'"
    using append_rows_sorted_Inr by blast
  then obtain loaded where
    "fs' = fs1(path_of T \<mapsto> table_text (header_of T) (sort_key key_of loaded))"
    using lint_rows_Inr by blast
  then show "\<exists>rows. fs' (path_of T) = Some (table_text (header_of T) rows) \<and>
         sorted (map key_of rows)"
    by (intro exI [of _ "sort_key key_of loaded"]) simp
next
  assume "append_rows T m False fs = Inr fs'"
  then have "fs' = fs(path_of T \<mapsto> open_for_writing (path_of T) A fs
                                  @ rows_text (header_of T) (sort_key key_of m))"
    using append_rows_plain_Inr by blast
  then show "\<exists>batch. fs' = fs(path_of T \<mapsto> open_for_writing (path_of T) A fs
                                        @ rows_text (header_of T) batch) \<and>
         mset batch = mset m \<and> sorted (map key_of batch)"
    by (intro exI [of _ "sort_key key_of m"]) simp
next
  assume h: "table_holds T rs fs" and m: "rows_ok (header_of T) m"
  show "\<exists>fs1 rows. write_rows T m fs = Inr fs1 \<and> load_rows T fs1 = Inr rows \<and>
          sorted (map key_of rows)"
    using sorted_after_write_paths_reloaded [OF h m] by blast
  show "\<exists>fs1 rows. lint_rows T fs = Inr fs1 \<and> load_rows T fs1 = Inr rows \<and>
          sorted (map key_of rows)"
    using sorted_after_write_paths_reloaded [OF h m] by blast
  show "\<exists>fs1 rows. append_rows T m True fs = Inr fs1 \<and> load_rows T fs1 = Inr rows \<and>
          sorted (map key_of rows)"
    using sorted_after_write_paths_reloaded [OF h m] by blast
  show "\<exists>fs1 new. append_rows T m False fs = Inr fs1 \<and> load_rows T fs1 = Inr (rs @ new) \<and>
          mset new = mset (map (stored (header_of T)) m) \<and> sorted (map key_of new) \<and>
          (sorted (map key_of (rs @ new)) \<longleftrightarrow>
             sorted (map key_of rs) \<and> (\<forall>r\<in>set rs. \<forall>n\<in>set new. key_of r \<le> key_of n))"
    using sorted_after_write_paths_reloaded [OF h m] by blast
qed

lemma example_write_calls:
  "write_rows TrueMappings [example_mapping ''a''] example_store
     = Inr (example_store(TRUE_MAPPINGS_PATH \<mapsto> table_text MAPPINGS_HEADER [example_mapping ''a'']))"
  "lint_rows TrueMappings example_store
     = Inr (example_store(TRUE_MAPPINGS_PATH \<mapsto> table_text MAPPINGS_HEADER [example_mapping ''x'']))"
  "append_rows TrueMappings [example_mapping ''a''] True example_store
     = Inr (example_store(TRUE_MAPPINGS_PATH \<mapsto> table_text MAPPINGS_HEADER
         (sort_key key_of [example_mapping ''x'', example_mapping ''a''])))"
  "append_rows TrueMappings [example_mapping ''a''] False example_store
     = Inr (example_store(TRUE_MAPPINGS_PATH \<mapsto> table_text MAPPINGS_HEADER
         [example_mapping ''x'', example_mapping ''a'']))"
proof -
  have ok: "rows_ok (header_of TrueMappings) [example_mapping ''x'']"
    using table_holds_rows_ok [OF example_store_holds(1)] .
  have held: "example_store (path_of TrueMappings)
      = Some (table_text (header_of TrueMappings) [example_mapping ''x''])"
    using example_store_paths(1) by simp
  show "write_rows TrueMappings [example_mapping ''a''] example_store
     = Inr (example_store(TRUE_MAPPINGS_PATH \<mapsto> table_text MAPPINGS_HEADER [example_mapping ''a'']))"
    using write_rows_total [OF rows_ok_has_columns [OF example_append_batch_ok], of example_store]
    by simp
  show "lint_rows TrueMappings example_store
     = Inr (example_store(TRUE_MAPPINGS_PATH \<mapsto> table_text MAPPINGS_HEADER [example_mapping ''x'']))"
    using lint_rows_table_text [where fs = example_store and T = TrueMappings, OF held ok] by simp
  show "append_rows TrueMappings [example_mapping ''a''] True example_store
     = Inr (example_store(TRUE_MAPPINGS_PATH \<mapsto> table_text MAPPINGS_HEADER
         (sort_key key_of [example_mapping ''x'', example_mapping ''a''])))"
    using append_rows_sorted_table_text [where fs = example_store and T = TrueMappings,
        OF held ok example_append_batch_ok]
    by simp
  show "append_rows TrueMappings [example_mapping ''a''] False example_store
     = Inr (example_store(TRUE_MAPPINGS_PATH \<mapsto> table_text MAPPINGS_HEADER
         [example_mapping ''x'', example_mapping ''a'']))"
    using append_rows_plain_table_text [where fs = example_store and T = TrueMappings,
        OF held example_append_batch_ok]
    by simp
qed

theorem C2_sorted_after_write_paths_witness:
  "write_rows TrueMappings [example_mapping ''a''] example_store
     = Inr (example_store(TRUE_MAPPINGS_PATH \<mapsto> table_text MAPPINGS_HEADER [example_mapping ''a''])) \<and>
   lint_rows TrueMappings example_store
     = Inr (example_store(TRUE_MAPPINGS_PATH \<mapsto> table_text MAPPINGS_HEADER [example_mapping ''x''])) \<and>
   append_rows TrueMappings [example_mapping ''a''] True example_store
     = Inr (example_store(TRUE_MAPPINGS_PATH \<mapsto> table_text MAPPINGS_HEADER
         (sort_key key_of [example_mapping ''x'', example_mapping ''a'']))) \<and>
   append_rows TrueMappings [example_mapping ''a''] False example_store
     = Inr (example_store(TRUE_MAPPINGS_PATH \<mapsto> table_text MAPPINGS_HEADER
         [example_mapping ''x'', example_mapping ''a''])) \<and>
   table_holds TrueMappings [example_mapping ''x''] example_store \<and>
   rows_ok (header_of TrueMappings) [example_mapping ''a''] \<and>
   (\<exists>rows. example_store(TRUE_MAPPINGS_PATH \<mapsto> table_text MAPPINGS_HEADER [example_mapping ''a''])
        = example_store(path_of TrueMappings \<mapsto> table_text (header_of TrueMappings) rows) \<and>
      mset rows = mset [example_mapping ''a''] \<and> sorted (map key_of rows)) \<and>
   (\<exists>loaded rows. load_rows TrueMappings example_store = Inr loaded \<and>
      example_store(TRUE_MAPPINGS_PATH \<mapsto> table_text MAPPINGS_HEADER [example_mapping ''x''])
        = example_store(path_of TrueMappings \<mapsto> table_text (header_of TrueMappings) rows) \<and>
      mset rows = mset loaded \<and> sorted (map key_of rows)) \<and>
   (\<exists>rows. (example_store(TRUE_MAPPINGS_PATH \<mapsto> table_text MAPPINGS_HEADER
         (sort_key key_of [example_mapping ''x'', example_mapping ''a'']))) (path_of TrueMappings)
        = Some (table_text (header_of TrueMappings) rows) \<and>
      sorted (map key_of rows)) \<and>
   (\<exists>batch. example_store(TRUE_MAPPINGS_PATH \<mapsto> table_text MAPPINGS_HEADER
         [example_mapping ''x'', example_mapping ''a''])
        = example_store(path_of TrueMappings \<mapsto> open_for_writing (path_of TrueMappings) A example_store
                                        @ rows_text (header_of TrueMappings) batch) \<and>
      mset batch = mset [example_mapping ''a''] \<and> sorted (map key_of batch)) \<and>
   (\<exists>fs1 new. append_rows TrueMappings [example_mapping ''a''] False example_store = Inr fs1 \<and>
      load_rows TrueMappings fs1 = Inr ([example_mapping ''x''] @ new) \<and>
      mset new = mset (map (stored (header_of TrueMappings)) [example_mapping ''a'']) \<and>
      sorted (map key_of new) \<and>
      (sorted (map key_of ([example_mapping ''x''] @ new)) \<longleftrightarrow>
         sorted (map key_of [example_mapping ''x'']) \<and>
         (\<forall>r\<in>set [example_mapping ''x'']. \<forall>n\<in>set new. key_of r \<le> key_of n)))"
proof -
  let ?m = "[example_mapping ''a'']"
  let ?rs = "[example_mapping ''x'']"
  let ?W = "example_store(TRUE_MAPPINGS_PATH \<mapsto> table_text MAPPINGS_HEADER [example_mapping ''a''])"
  let ?L = "example_store(TRUE_MAPPINGS_PATH \<mapsto> table_text MAPPINGS_HEADER [example_mapping ''x''])"
  let ?S = "example_store(TRUE_MAPPINGS_PATH \<mapsto> table_text MAPPINGS_HEADER
         (sort_key key_of [example_mapping ''x'', example_mapping ''a'']))"
  let ?P = "example_store(TRUE_MAPPINGS_PATH \<mapsto> table_text MAPPINGS_HEADER
         [example_mapping ''x'', example_mapping ''a''])"
  have w: "\<exists>rows. ?W = example_store(path_of TrueMappings \<mapsto> table_text (header_of TrueMappings) rows) \<and>
      mset rows = mset ?m \<and> sorted (map key_of rows)"
    using C2_sorted_after_write_paths [of TrueMappings ?m example_store ?W ?rs]
      example_write_calls(1) by blast
  have l: "\<exists>loaded rows. load_rows TrueMappings example_store = Inr loaded \<and>
      ?L = example_store(path_of TrueMappings \<mapsto> table_text (header_of TrueMappings) rows) \<and>
      mset rows = mset loaded \<and> sorted (map key_of rows)"
    using C2_sorted_after_write_paths [of TrueMappings ?m example_store ?L ?rs]
      example_write_calls(2) by blast
  have s: "\<exists>rows. ?S (path_of TrueMappings) = Some (table_text (header_of TrueMappings) rows) \<and>
      sorted (map key_of rows)"
    using C2_sorted_after_write_paths [of TrueMappings ?m example_store ?S ?rs]
      example_write_calls(3) by blast
  have p: "\<exists>batch. ?P = example_store(path_of TrueMappings \<mapsto>
        open_for_writing (path_of TrueMappings) A example_store
          @ rows_text (header_of TrueMappings) batch) \<and>
      mset batch = mset ?m \<and> sorted (map key_of batch)"
    using C2_sorted_after_write_paths [of TrueMappings ?m example_store ?P ?rs]
      example_write_calls(4) by blast
  have r: "\<exists>fs1 new. append_rows TrueMappings ?m False example_store = Inr fs1 \<and>
      load_rows TrueMappings fs1 = Inr (?rs @ new) \<and>
      mset new = mset (map (stored (header_of TrueMappings)) ?m) \<and>
      sorted (map key_of new) \<and>
      (sorted (map key_of (?rs @ new)) \<longleftrightarrow>
         sorted (map key_of ?rs) \<and> (\<forall>r\<in>set ?rs. \<forall>n\<in>set new. key_of r \<le> key_of n))"
    using C2_sorted_after_write_paths [of TrueMappings ?m example_store ?P ?rs]
      example_store_holds(1) example_append_batch_ok by blast
  show ?thesis
    using example_write_calls example_store_holds(1) example_append_batch_ok w l s p r
    by (intro conjI) assumption+
qed

subsection \<open>Append with sorting and one sorted rewrite\<close>

text \<open>
  Claim C8, as amended. For every table of records of the schema and every batch of
  records that have the columns of the schema with values that can be written and read
  back (no tab, no line end, no double quote at the start, within the field size limit),
  append with \<^verbatim>\<open>sort=True\<close> returns and leaves the store that one overwrite of the table
  with the old records followed by the batch leaves (the overwrite sorts them in
  canonical order). For the predictions table with deduplication the batch is the
  records that survive it.
\<close>

theorem C8_append_sorted_is_sorted_rewrite:
  assumes "table_holds T rs fs" and "rows_ok (header_of T) m"
  shows "(\<exists>fs'. load_rows T fs = Inr rs \<and> append_rows T m True fs = Inr fs' \<and>
            write_rows T (rs @ m) fs = Inr fs' \<and>
            fs' = fs(path_of T \<mapsto> table_text (header_of T) (sort_key key_of (rs @ m)))) \<and>
         (T = Predictions \<longrightarrow> existing_mappings gct fs = Inr K \<longrightarrow>
            not_in_existing gct K m = Inr survivors \<longrightarrow>
            (\<exists>fs'. append_predictions gct m True True fs = Inr fs' \<and>
               write_predictions (rs @ survivors) fs = Inr fs'))"
proof (intro conjI impI)
  show "\<exists>fs'. load_rows T fs = Inr rs \<and> append_rows T m True fs = Inr fs' \<and>
            write_rows T (rs @ m) fs = Inr fs' \<and>
            fs' = fs(path_of T \<mapsto> table_text (header_of T) (sort_key key_of (rs @ m)))"
    using append_sorted_is_rewrite [OF assms] table_holds_load [OF assms(1)] by simp
next
  assume T: "T = Predictions" and K: "existing_mappings gct fs = Inr K"
    and s: "not_in_existing gct K m = Inr survivors"
  have "rows_ok (header_of T) survivors"
    using not_in_existing_Inr [OF s] assms(2) by (simp add: rows_ok_filter)
  then have "append_rows T survivors True fs
           = Inr (fs(path_of T \<mapsto> table_text (header_of T) (sort_key key_of (rs @ survivors))))"
    and "write_rows T (rs @ survivors) fs
           = Inr (fs(path_of T \<mapsto> table_text (header_of T) (sort_key key_of (rs @ survivors))))"
    using append_sorted_is_rewrite [OF assms(1)] by simp_all
  then show "\<exists>fs'. append_predictions gct m True True fs = Inr fs' \<and>
               write_predictions (rs @ survivors) fs = Inr fs'"
    using K s by (simp add: T append_predictions_dedup and_then_Inr)
qed

theorem C8_append_sorted_is_sorted_rewrite_witness:
  "table_holds Predictions [example_prediction ''p'' ''name 1'' ''0.9''] example_store \<and>
   rows_ok (header_of Predictions)
     [example_prediction ''p'' ''other name'' ''0.5'', example_prediction ''a'' ''name 1'' ''0.5''] \<and>
   (\<exists>fs'. load_rows Predictions example_store = Inr [example_prediction ''p'' ''name 1'' ''0.9''] \<and>
      append_rows Predictions
        [example_prediction ''p'' ''other name'' ''0.5'', example_prediction ''a'' ''name 1'' ''0.5'']
        True example_store = Inr fs' \<and>
      write_rows Predictions
        ([example_prediction ''p'' ''name 1'' ''0.9'']
         @ [example_prediction ''p'' ''other name'' ''0.5'', example_prediction ''a'' ''name 1'' ''0.5''])
        example_store = Inr fs') \<and>
   existing_mappings get_canonical_tuple example_store
     = Inr (key_of ` set ([example_mapping ''x''] @ [example_mapping ''f'']
              @ [example_prediction ''p'' ''name 1'' ''0.9''])) \<and>
   (\<exists>fs'. append_predictions get_canonical_tuple
        [example_prediction ''p'' ''other name'' ''0.5'', example_prediction ''a'' ''name 1'' ''0.5'']
        True True example_store = Inr fs' \<and>
      write_predictions
        ([example_prediction ''p'' ''name 1'' ''0.9''] @ [example_prediction ''a'' ''name 1'' ''0.5''])
        example_store = Inr fs')"
  using C8_append_sorted_is_sorted_rewrite [OF example_store_holds(4) example_batch_ok,
      of get_canonical_tuple
        "key_of ` set ([example_mapping ''x''] @ [example_mapping ''f'']
              @ [example_prediction ''p'' ''name 1'' ''0.9''])"
        "[example_prediction ''a'' ''name 1'' ''0.5'']"]
    example_store_holds(4) example_batch_ok example_existing example_survivors
  by blast

text \<open>
  The claim as stated fails. The true-mappings table is empty; the batch is one record
  whose last value is \<^verbatim>\<open>"x\<close>. The append writes the value as it is, the reload for the
  sort reads it as a quoted field that runs to the end of the file, and the table is
  rewritten with the value \<^verbatim>\<open>x\<close> and a line end in it; one overwrite with the same
  record writes \<^verbatim>\<open>"x\<close>.
\<close>

theorem C8_append_sorted_differs_from_rewrite:
  "append_true_mappings [dict_zip MAPPINGS_HEADER (quoted_row [QUOTE, CHR ''x''])] True
       [TRUE_MAPPINGS_PATH \<mapsto> table_text MAPPINGS_HEADER []]
     = Inr (quoted_store [CHR ''x'', LF]) \<and>
   load_mappings [TRUE_MAPPINGS_PATH \<mapsto> table_text MAPPINGS_HEADER []] = Inr [] \<and>
   write_true_mappings ([] @ [dict_zip MAPPINGS_HEADER (quoted_row [QUOTE, CHR ''x''])])
       [TRUE_MAPPINGS_PATH \<mapsto> table_text MAPPINGS_HEADER []]
     = Inr (quoted_store [QUOTE, CHR ''x'']) \<and>
   quoted_store [CHR ''x'', LF] TRUE_MAPPINGS_PATH \<noteq> quoted_store [QUOTE, CHR ''x''] TRUE_MAPPINGS_PATH"
proof (intro conjI)
  let ?r = "dict_zip MAPPINGS_HEADER (quoted_row [QUOTE, CHR ''x''])"
  let ?fs = "[TRUE_MAPPINGS_PATH \<mapsto> table_text MAPPINGS_HEADER []]"
  have "dom ?r = set MAPPINGS_HEADER"
    by (rule dict_zip_dom) (simp add: MAPPINGS_HEADER_def quoted_row_def)
  then have cols: "list_all (has_columns (header_of TrueMappings)) [?r]"
    by (auto simp: has_columns_def list_all_iff)
  have rendered: "table_text MAPPINGS_HEADER [?r] = quoted_file [QUOTE, CHR ''x'']"
    by (simp add: table_text_def rows_text_def quoted_file_def row_values_quoted_row)
  have none: "rows_text MAPPINGS_HEADER [] = []"
    by (simp add: rows_text_def)
  have "write_helper (header_of TrueMappings) [?r] (path_of TrueMappings) A ?fs
      = Inr (?fs(path_of TrueMappings \<mapsto> table_text MAPPINGS_HEADER []
                @ rows_text (header_of TrueMappings) (sort_key key_of [?r])))"
    using cols by (intro write_helper_append) simp_all
  then have "write_helper (header_of TrueMappings) [?r] (path_of TrueMappings) A ?fs
      = Inr (quoted_store [QUOTE, CHR ''x''])"
    using rendered none by (simp add: table_text_def quoted_store_def)
  then have "append_rows TrueMappings [?r] True ?fs = lint_rows TrueMappings (quoted_store [QUOTE, CHR ''x''])"
    using append_rows_eq [of TrueMappings "[?r]" True ?fs] by (simp add: and_then_Inr)
  then show "append_true_mappings [?r] True ?fs = Inr (quoted_store [CHR ''x'', LF])"
    using lint_quoted_store [OF csv_reader_quoted_file_2] by simp
  have "table_holds TrueMappings [] ?fs" by (simp add: table_holds_def)
  then show "load_mappings ?fs = Inr []" using table_holds_load by fastforce
  have "write_rows TrueMappings ([] @ [?r]) ?fs
      = Inr (?fs(path_of TrueMappings \<mapsto> table_text (header_of TrueMappings) (sort_key key_of ([] @ [?r]))))"
    using cols by (intro write_rows_total) simp
  then show "write_true_mappings ([] @ [?r]) ?fs = Inr (quoted_store [QUOTE, CHR ''x''])"
    using rendered by (simp add: quoted_store_def)
  have "quoted_file [CHR ''x'', LF] \<noteq> quoted_file [QUOTE, CHR ''x'']"
    by (simp add: quoted_file_def quoted_row_def print_line_def QUOTE_def LF_def TAB_def)
  then show "quoted_store [CHR ''x'', LF] TRUE_MAPPINGS_PATH \<noteq> quoted_store [QUOTE, CHR ''x''] TRUE_MAPPINGS_PATH"
    by (simp add: quoted_store_def)
qed

subsection \<open>Quoted fields\<close>

lemma parse_line_in_quoted:
  "QUOTE \<notin> set v \<Longrightarrow> length f + length v \<le> field_limit \<Longrightarrow>
   parse_line \<lparr>rd_fields = fs, rd_field = f, rd_state = IN_QUOTED_FIELD\<rparr> v
   = Inr \<lparr>rd_fields = fs, rd_field = f @ v, rd_state = IN_QUOTED_FIELD\<rparr>"
proof (induction v arbitrary: f)
  case Nil
  then show ?case by (simp add: parse_process_char_def)
next
  case (Cons c v)
  then have step: "parse_process_char \<lparr>rd_fields = fs, rd_field = f, rd_state = IN_QUOTED_FIELD\<rparr> (Some c)
     = Inr \<lparr>rd_fields = fs, rd_field = f @ [c], rd_state = IN_QUOTED_FIELD\<rparr>"
    by (auto simp: parse_process_char_def parse_add_char_def)
  have "parse_line \<lparr>rd_fields = fs, rd_field = f @ [c], rd_state = IN_QUOTED_FIELD\<rparr> v
        = Inr \<lparr>rd_fields = fs, rd_field = (f @ [c]) @ v, rd_state = IN_QUOTED_FIELD\<rparr>"
    using Cons.prems by (intro Cons.IH) auto
  then show ?case using step by simp
qed

lemma parse_line_quoted_tab:
  assumes "c \<noteq> QUOTE"
  shows "parse_line \<lparr>rd_fields = fs, rd_field = [], rd_state = START_FIELD\<rparr>
           ([QUOTE, c, QUOTE] @ TAB # rest)
       = parse_line \<lparr>rd_fields = fs @ [[c]], rd_field = [], rd_state = START_FIELD\<rparr> rest"
  using assms
  by (simp add: parse_process_char_def start_field_def parse_add_char_def parse_save_field_def
      and_then_def field_limit_def QUOTE_def LF_def CR_def TAB_def)

lemma parse_line_doubled_quotes_tab:
  assumes "c \<noteq> QUOTE"
  shows "parse_line \<lparr>rd_fields = fs, rd_field = [], rd_state = START_FIELD\<rparr>
           ([QUOTE, QUOTE, QUOTE, c, QUOTE, QUOTE, QUOTE] @ TAB # rest)
       = parse_line \<lparr>rd_fields = fs @ [[QUOTE, c, QUOTE]], rd_field = [], rd_state = START_FIELD\<rparr> rest"
  using assms
  by (simp add: parse_process_char_def start_field_def parse_add_char_def parse_save_field_def
      and_then_def field_limit_def QUOTE_def LF_def CR_def TAB_def)

lemma parse_line_quoted_end:
  assumes "c \<noteq> QUOTE"
  shows "parse_line \<lparr>rd_fields = fs, rd_field = [], rd_state = START_FIELD\<rparr> ([QUOTE, c, QUOTE] @ [LF])
       = Inr \<lparr>rd_fields = fs @ [[c]], rd_field = [], rd_state = START_RECORD\<rparr>"
  using assms
  by (simp add: parse_process_char_def start_field_def parse_add_char_def parse_save_field_def
      and_then_def field_limit_def QUOTE_def LF_def CR_def TAB_def)

subsection \<open>Files with quoted fields\<close>

lemma join_line_end_free:
  assumes "\<forall>v\<in>set vs. LF \<notin> set v \<and> CR \<notin> set v"
  shows "LF \<notin> set (join [TAB] vs) \<and> CR \<notin> set (join [TAB] vs)"
proof -
  have "TAB \<noteq> LF" "TAB \<noteq> CR" by (simp_all add: TAB_def LF_def CR_def)
  then show ?thesis using assms set_join [of "[TAB]" vs] by auto
qed

lemma readlines_raw_lines:
  assumes "\<forall>vs\<in>set raws. \<forall>v\<in>set vs. LF \<notin> set v \<and> CR \<notin> set v"
  shows "readlines (concat (map print_line raws)) = map print_line raws"
proof -
  have "\<forall>b\<in>set (map (join [TAB]) raws). LF \<notin> set b \<and> CR \<notin> set b"
    using assms join_line_end_free by auto
  then have "readlines (concat (map (\<lambda>b. b @ [LF]) (map (join [TAB]) raws)))
      = map (\<lambda>b. b @ [LF]) (map (join [TAB]) raws)"
    by (rule readlines_bodies)
  then show ?thesis by (simp add: concat_print_line print_line_def comp_def)
qed

lemma reader_rows_complete_rows:
  assumes "list_all2 (\<lambda>raw row. parse_line parse_reset (print_line raw)
             = Inr \<lparr>rd_fields = row, rd_field = [], rd_state = START_RECORD\<rparr>) raws rows"
  shows "reader_rows parse_reset (map print_line raws) = Inr rows"
  using assms
proof (induction raws rows rule: list_all2_induct)
  case Nil
  then show ?case by (simp add: parse_reset_def)
next
  case (Cons raw raws row rows)
  then show ?case by (simp add: and_then_Inr)
qed

lemma csv_reader_raw_lines:
  assumes "\<forall>vs\<in>set raws. \<forall>v\<in>set vs. LF \<notin> set v \<and> CR \<notin> set v"
    and "list_all2 (\<lambda>raw row. parse_line parse_reset (print_line raw)
             = Inr \<lparr>rd_fields = row, rd_field = [], rd_state = START_RECORD\<rparr>) raws rows"
  shows "csv_reader (concat (map print_line raws)) = Inr rows"
  using readlines_raw_lines [OF assms(1)] reader_rows_complete_rows [OF assms(2)]
  by (simp only: csv_reader_def)

lemma header_line_end_free:
  "\<forall>v\<in>set (header_of T). LF \<notin> set v \<and> CR \<notin> set v"
  using schema_header_of [of T] tsv_safe_no_line_end by (auto simp: schema_def list_all_iff)

lemma parse_line_header:
  "parse_line parse_reset (print_line (header_of T))
   = Inr \<lparr>rd_fields = header_of T, rd_field = [], rd_state = START_RECORD\<rparr>"
  using schema_header_of [of T] by (intro parse_line_print_line schema_printable)

lemma parse_line_quoted_row_last:
  assumes "parse_line \<lparr>rd_fields = [''a'', ''1'', ''n'', ''r'', ''b'', ''2'', ''m'', ''t''],
               rd_field = [], rd_state = START_FIELD\<rparr> (raw @ [LF])
           = Inr \<lparr>rd_fields = [''a'', ''1'', ''n'', ''r'', ''b'', ''2'', ''m'', ''t''] @ [v],
               rd_field = [], rd_state = START_RECORD\<rparr>"
  shows "parse_line parse_reset (print_line (quoted_row raw))
       = Inr \<lparr>rd_fields = quoted_row v, rd_field = [], rd_state = START_RECORD\<rparr>"
  unfolding parse_line_quoted_row using assms by (simp add: quoted_row_def)

lemma quoted_row_line_end_free:
  assumes "LF \<notin> set v" and "CR \<notin> set v"
  shows "\<forall>f\<in>set (quoted_row v). LF \<notin> set f \<and> CR \<notin> set f"
  using assms by (simp add: quoted_row_def LF_def CR_def)

lemma csv_reader_two_row_file:
  assumes "LF \<notin> set raw1" "CR \<notin> set raw1" "LF \<notin> set raw2" "CR \<notin> set raw2"
    and "parse_line parse_reset (print_line (quoted_row raw1))
       = Inr \<lparr>rd_fields = quoted_row v1, rd_field = [], rd_state = START_RECORD\<rparr>"
    and "parse_line parse_reset (print_line (quoted_row raw2))
       = Inr \<lparr>rd_fields = quoted_row v2, rd_field = [], rd_state = START_RECORD\<rparr>"
  shows "csv_reader (two_row_file raw1 raw2) = Inr [MAPPINGS_HEADER, quoted_row v1, quoted_row v2]"
proof -
  have "csv_reader (concat (map print_line [MAPPINGS_HEADER, quoted_row raw1, quoted_row raw2]))
      = Inr [MAPPINGS_HEADER, quoted_row v1, quoted_row v2]"
  proof (rule csv_reader_raw_lines)
    show "\<forall>vs\<in>set [MAPPINGS_HEADER, quoted_row raw1, quoted_row raw2].
            \<forall>v\<in>set vs. LF \<notin> set v \<and> CR \<notin> set v"
      using header_line_end_free [of TrueMappings] quoted_row_line_end_free [OF assms(1,2)]
        quoted_row_line_end_free [OF assms(3,4)] by simp
    show "list_all2 (\<lambda>raw row. parse_line parse_reset (print_line raw)
             = Inr \<lparr>rd_fields = row, rd_field = [], rd_state = START_RECORD\<rparr>)
           [MAPPINGS_HEADER, quoted_row raw1, quoted_row raw2]
           [MAPPINGS_HEADER, quoted_row v1, quoted_row v2]"
      using parse_line_header [of TrueMappings] assms(5,6) by simp
  qed
  then show ?thesis by (simp add: two_row_file_def)
qed

lemma parse_line_quoted_row_safe:
  assumes "tsv_safe v"
  shows "parse_line parse_reset (print_line (quoted_row v))
       = Inr \<lparr>rd_fields = quoted_row v, rd_field = [], rd_state = START_RECORD\<rparr>"
  by (rule parse_line_quoted_row_last) (simp add: parse_line_field_end [OF assms])

lemma csv_reader_two_row_file_1:
  "csv_reader (two_row_file [QUOTE, QUOTE, QUOTE, CHR ''x'', QUOTE] ''s'')
   = Inr [MAPPINGS_HEADER, quoted_row [QUOTE, CHR ''x''], quoted_row ''s'']"
proof (rule csv_reader_two_row_file)
  show "parse_line parse_reset (print_line (quoted_row [QUOTE, QUOTE, QUOTE, CHR ''x'', QUOTE]))
       = Inr \<lparr>rd_fields = quoted_row [QUOTE, CHR ''x''], rd_field = [], rd_state = START_RECORD\<rparr>"
    by (rule parse_line_quoted_row_last) (simp only: append.simps parse_line_closed_quote)
  show "parse_line parse_reset (print_line (quoted_row ''s''))
       = Inr \<lparr>rd_fields = quoted_row ''s'', rd_field = [], rd_state = START_RECORD\<rparr>"
    by (rule parse_line_quoted_row_safe)
      (simp add: tsv_safe_def plain_def TAB_def LF_def CR_def QUOTE_def field_limit_def)
qed (simp_all add: QUOTE_def LF_def CR_def)

lemma csv_reader_two_row_file_3:
  "csv_reader (two_row_file [QUOTE, CHR ''z'', QUOTE] ''a'')
   = Inr [MAPPINGS_HEADER, quoted_row ''z'', quoted_row ''a'']"
proof (rule csv_reader_two_row_file)
  show "parse_line parse_reset (print_line (quoted_row [QUOTE, CHR ''z'', QUOTE]))
       = Inr \<lparr>rd_fields = quoted_row ''z'', rd_field = [], rd_state = START_RECORD\<rparr>"
    by (rule parse_line_quoted_row_last, rule parse_line_quoted_end) (simp add: QUOTE_def)
  show "parse_line parse_reset (print_line (quoted_row ''a''))
       = Inr \<lparr>rd_fields = quoted_row ''a'', rd_field = [], rd_state = START_RECORD\<rparr>"
    by (rule parse_line_quoted_row_safe)
      (simp add: tsv_safe_def plain_def TAB_def LF_def CR_def QUOTE_def field_limit_def)
qed (simp_all add: QUOTE_def LF_def CR_def)

text \<open>A quote that is opened in the last field of the first row and never closed: the
  second line is read into that field.\<close>

lemma csv_reader_two_row_file_2:
  "csv_reader (two_row_file [QUOTE, CHR ''x''] ''s'')
   = Inr [MAPPINGS_HEADER, quoted_row ([CHR ''x'', LF] @ print_line (quoted_row ''s''))]"
proof -
  let ?prefix = "[''a'', ''1'', ''n'', ''r'', ''b'', ''2'', ''m'', ''t'']"
  have lines: "readlines (concat (map print_line [MAPPINGS_HEADER, quoted_row [QUOTE, CHR ''x''], quoted_row ''s'']))
      = map print_line [MAPPINGS_HEADER, quoted_row [QUOTE, CHR ''x''], quoted_row ''s'']"
    using header_line_end_free [of TrueMappings]
    by (intro readlines_raw_lines) (simp add: quoted_row_def QUOTE_def LF_def CR_def)
  have first: "parse_line parse_reset (print_line (quoted_row [QUOTE, CHR ''x'']))
      = Inr \<lparr>rd_fields = ?prefix, rd_field = [CHR ''x'', LF], rd_state = IN_QUOTED_FIELD\<rparr>"
    by (simp only: parse_line_quoted_row append.simps parse_line_open_quote)
  have "QUOTE \<notin> set (print_line (quoted_row ''s''))"
    by (simp add: print_line_def quoted_row_def QUOTE_def TAB_def LF_def)
  moreover have "length [CHR ''x'', LF] + length (print_line (quoted_row ''s'')) \<le> field_limit"
    by (simp add: print_line_def quoted_row_def field_limit_def)
  ultimately have second:
    "parse_line \<lparr>rd_fields = ?prefix, rd_field = [CHR ''x'', LF], rd_state = IN_QUOTED_FIELD\<rparr>
       (print_line (quoted_row ''s''))
     = Inr \<lparr>rd_fields = ?prefix, rd_field = [CHR ''x'', LF] @ print_line (quoted_row ''s''),
            rd_state = IN_QUOTED_FIELD\<rparr>"
    by (rule parse_line_in_quoted)
  have "reader_rows parse_reset
          [print_line (quoted_row [QUOTE, CHR ''x'']), print_line (quoted_row ''s'')]
      = Inr [?prefix @ [[CHR ''x'', LF] @ print_line (quoted_row ''s'')]]"
    using first second by (simp add: parse_save_field_def)
  then have "reader_rows parse_reset
          [print_line (quoted_row [QUOTE, CHR ''x'']), print_line (quoted_row ''s'')]
      = Inr [quoted_row ([CHR ''x'', LF] @ print_line (quoted_row ''s''))]"
    by (simp add: quoted_row_def)
  then have "reader_rows parse_reset
          (map print_line [MAPPINGS_HEADER, quoted_row [QUOTE, CHR ''x''], quoted_row ''s''])
      = Inr [MAPPINGS_HEADER, quoted_row ([CHR ''x'', LF] @ print_line (quoted_row ''s''))]"
    using parse_line_header [of TrueMappings] by (simp add: and_then_Inr)
  then show ?thesis using lines by (simp only: csv_reader_def two_row_file_def concat.simps list.map append_Nil2)
qed

subsection \<open>Prediction rows with quoted fields\<close>

lemma prediction_row_line:
  "print_line (prediction_row tid src)
   = join [TAB] [''a'', ''1'', ''n'', ''r'', ''b''] @ TAB # tid @ TAB #
     join [TAB] [''m'', ''t'', ''c''] @ TAB # src @ [LF]"
  by (simp add: prediction_row_def print_line_def)

lemma parse_line_prediction_row:
  assumes mid: "\<And>fs rest. parse_line \<lparr>rd_fields = fs, rd_field = [], rd_state = START_FIELD\<rparr>
                   (tid @ TAB # rest)
                 = parse_line \<lparr>rd_fields = fs @ [tid'], rd_field = [], rd_state = START_FIELD\<rparr> rest"
    and last: "\<And>fs. parse_line \<lparr>rd_fields = fs, rd_field = [], rd_state = START_FIELD\<rparr> (src @ [LF])
                 = Inr \<lparr>rd_fields = fs @ [src'], rd_field = [], rd_state = START_RECORD\<rparr>"
  shows "parse_line parse_reset (print_line (prediction_row tid src))
       = Inr \<lparr>rd_fields = prediction_row tid' src', rd_field = [], rd_state = START_RECORD\<rparr>"
proof -
  have safe1: "list_all tsv_safe [''a'', ''1'', ''n'', ''r'', ''b'']"
    and safe2: "list_all tsv_safe [''m'', ''t'', ''c'']"
    by (simp_all add: tsv_safe_def plain_def TAB_def LF_def CR_def QUOTE_def field_limit_def)
  have "parse_line parse_reset (print_line (prediction_row tid src))
      = parse_line \<lparr>rd_fields = [] @ [''a'', ''1'', ''n'', ''r'', ''b''], rd_field = [], rd_state = START_FIELD\<rparr>
          (tid @ TAB # join [TAB] [''m'', ''t'', ''c''] @ TAB # src @ [LF])"
    unfolding prediction_row_line parse_reset_def
    by (rule parse_line_prefix [OF safe1]) simp
  also have "\<dots> = parse_line \<lparr>rd_fields = ([] @ [''a'', ''1'', ''n'', ''r'', ''b'']) @ [tid'],
                       rd_field = [], rd_state = START_FIELD\<rparr>
          (join [TAB] [''m'', ''t'', ''c''] @ TAB # src @ [LF])"
    by (rule mid)
  also have "\<dots> = parse_line \<lparr>rd_fields = (([] @ [''a'', ''1'', ''n'', ''r'', ''b'']) @ [tid']) @ [''m'', ''t'', ''c''],
                       rd_field = [], rd_state = START_FIELD\<rparr> (src @ [LF])"
    by (rule parse_line_prefix [OF safe2]) simp
  also have "\<dots> = Inr \<lparr>rd_fields = ((([] @ [''a'', ''1'', ''n'', ''r'', ''b'']) @ [tid']) @ [''m'', ''t'', ''c'']) @ [src'],
                       rd_field = [], rd_state = START_RECORD\<rparr>"
    by (rule last)
  finally show ?thesis by (simp add: prediction_row_def)
qed

lemma csv_reader_prediction_file:
  assumes "LF \<notin> set tid" "CR \<notin> set tid" "LF \<notin> set src" "CR \<notin> set src"
    and "parse_line parse_reset (print_line (prediction_row tid src))
       = Inr \<lparr>rd_fields = prediction_row tid' src', rd_field = [], rd_state = START_RECORD\<rparr>"
  shows "csv_reader (prediction_file tid src) = Inr [PREDICTIONS_HEADER, prediction_row tid' src']"
proof -
  have "csv_reader (concat (map print_line [PREDICTIONS_HEADER, prediction_row tid src]))
      = Inr [PREDICTIONS_HEADER, prediction_row tid' src']"
  proof (rule csv_reader_raw_lines)
    have "\<forall>f\<in>set (prediction_row tid src). LF \<notin> set f \<and> CR \<notin> set f"
      using assms(1-4) by (simp add: prediction_row_def LF_def CR_def)
    then show "\<forall>vs\<in>set [PREDICTIONS_HEADER, prediction_row tid src].
            \<forall>v\<in>set vs. LF \<notin> set v \<and> CR \<notin> set v"
      using header_line_end_free [of Predictions] by simp
    show "list_all2 (\<lambda>raw row. parse_line parse_reset (print_line raw)
             = Inr \<lparr>rd_fields = row, rd_field = [], rd_state = START_RECORD\<rparr>)
           [PREDICTIONS_HEADER, prediction_row tid src]
           [PREDICTIONS_HEADER, prediction_row tid' src']"
      using parse_line_header [of Predictions] assms(5) by simp
  qed
  then show ?thesis by (simp add: prediction_file_def)
qed

lemma safe_field_tab:
  assumes "tsv_safe v"
  shows "parse_line \<lparr>rd_fields = fs, rd_field = [], rd_state = START_FIELD\<rparr> (v @ TAB # rest)
       = parse_line \<lparr>rd_fields = fs @ [v], rd_field = [], rd_state = START_FIELD\<rparr> rest"
  using assms by (intro parse_line_field_tab) simp_all

lemma safe_field_end:
  assumes "tsv_safe v"
  shows "parse_line \<lparr>rd_fields = fs, rd_field = [], rd_state = START_FIELD\<rparr> (v @ [LF])
       = Inr \<lparr>rd_fields = fs @ [v], rd_field = [], rd_state = START_RECORD\<rparr>"
  using assms by (intro parse_line_field_end) simp_all

lemma tsv_safe_short: "tsv_safe ''s''" "tsv_safe ''2''" "tsv_safe ''B''" "tsv_safe ''z''"
  by (simp_all add: tsv_safe_def plain_def TAB_def LF_def CR_def QUOTE_def field_limit_def)

lemma csv_reader_prediction_file_1:
  "csv_reader (prediction_file [QUOTE, QUOTE, QUOTE, CHR ''B'', QUOTE, QUOTE, QUOTE] ''s'')
   = Inr [PREDICTIONS_HEADER, prediction_row [QUOTE, CHR ''B'', QUOTE] ''s'']"
proof (rule csv_reader_prediction_file)
  have "CHR ''B'' \<noteq> QUOTE" by (simp add: QUOTE_def)
  then show "parse_line parse_reset
         (print_line (prediction_row [QUOTE, QUOTE, QUOTE, CHR ''B'', QUOTE, QUOTE, QUOTE] ''s''))
       = Inr \<lparr>rd_fields = prediction_row [QUOTE, CHR ''B'', QUOTE] ''s'', rd_field = [],
              rd_state = START_RECORD\<rparr>"
    by (intro parse_line_prediction_row parse_line_doubled_quotes_tab safe_field_end tsv_safe_short)
qed (simp_all add: QUOTE_def LF_def CR_def)

lemma csv_reader_prediction_file_2:
  "csv_reader (prediction_file [QUOTE, CHR ''B'', QUOTE] ''s'')
   = Inr [PREDICTIONS_HEADER, prediction_row ''B'' ''s'']"
proof (rule csv_reader_prediction_file)
  have "CHR ''B'' \<noteq> QUOTE" by (simp add: QUOTE_def)
  then show "parse_line parse_reset (print_line (prediction_row [QUOTE, CHR ''B'', QUOTE] ''s''))
       = Inr \<lparr>rd_fields = prediction_row ''B'' ''s'', rd_field = [], rd_state = START_RECORD\<rparr>"
    by (intro parse_line_prediction_row parse_line_quoted_tab safe_field_end tsv_safe_short)
qed (simp_all add: QUOTE_def LF_def CR_def)

lemma csv_reader_prediction_file_3:
  "csv_reader (prediction_file ''2'' [QUOTE, CHR ''s'', QUOTE])
   = Inr [PREDICTIONS_HEADER, prediction_row ''2'' ''s'']"
proof (rule csv_reader_prediction_file)
  have "CHR ''s'' \<noteq> QUOTE" by (simp add: QUOTE_def)
  then show "parse_line parse_reset (print_line (prediction_row ''2'' [QUOTE, CHR ''s'', QUOTE]))
       = Inr \<lparr>rd_fields = prediction_row ''2'' ''s'', rd_field = [], rd_state = START_RECORD\<rparr>"
    by (intro parse_line_prediction_row safe_field_tab parse_line_quoted_end tsv_safe_short)
qed (simp_all add: QUOTE_def LF_def CR_def)

subsection \<open>Tables whose values are not read back as they were written\<close>

lemma load_table_csv_reader:
  assumes "fs fname = Some content" and "csv_reader content = Inr (header # rows)"
  shows "load_table fname fs = Inr (map (dict_zip header) rows)"
  using assms by (simp add: load_table_def)

lemma dict_zip_has_columns:
  assumes "length vs = length header"
  shows "has_columns header (dict_zip header vs)"
  using dict_zip_dom [OF assms] by (auto simp: has_columns_def list_all_iff)

lemma quoted_row_has_columns:
  "has_columns MAPPINGS_HEADER (dict_zip MAPPINGS_HEADER (quoted_row v))"
  using dict_zip_has_columns [of "quoted_row v" MAPPINGS_HEADER]
  by (simp add: MAPPINGS_HEADER_def quoted_row_def)

lemma prediction_row_has_columns:
  "has_columns PREDICTIONS_HEADER (dict_zip PREDICTIONS_HEADER (prediction_row tid src))"
  using dict_zip_has_columns [of "prediction_row tid src" PREDICTIONS_HEADER]
  by (simp add: PREDICTIONS_HEADER_def prediction_row_def)

lemma key_of_quoted_row:
  "key_of (dict_zip MAPPINGS_HEADER (quoted_row v)) = (''a'', ''1'', ''r'', ''b'', ''2'', ''t'', v)"
  by (simp add: key_of_def dict_zip_def MAPPINGS_HEADER_def quoted_row_def)

lemma key_of_prediction_row:
  "key_of (dict_zip PREDICTIONS_HEADER (prediction_row tid src))
   = (''a'', ''1'', ''r'', ''b'', tid, ''t'', src)"
  by (simp add: key_of_def dict_zip_def PREDICTIONS_HEADER_def prediction_row_def)

lemma row_values_prediction_row:
  "row_values PREDICTIONS_HEADER (dict_zip PREDICTIONS_HEADER (prediction_row tid src))
   = prediction_row tid src"
  by (simp add: row_values_def dict_zip_def PREDICTIONS_HEADER_def prediction_row_def)

lemma table_text_two_rows:
  "table_text MAPPINGS_HEADER
     [dict_zip MAPPINGS_HEADER (quoted_row v), dict_zip MAPPINGS_HEADER (quoted_row w)]
   = two_row_file v w"
  by (simp add: table_text_def rows_text_def two_row_file_def row_values_quoted_row)

lemma table_text_prediction_row:
  "table_text PREDICTIONS_HEADER [dict_zip PREDICTIONS_HEADER (prediction_row tid src)]
   = prediction_file tid src"
  by (simp add: table_text_def rows_text_def prediction_file_def row_values_prediction_row)

lemma load_two_row_store:
  assumes "csv_reader (two_row_file raw1 raw2) = Inr (MAPPINGS_HEADER # rows)"
  shows "load_mappings (fs(TRUE_MAPPINGS_PATH \<mapsto> two_row_file raw1 raw2))
       = Inr (map (dict_zip MAPPINGS_HEADER) rows)"
  unfolding load_mappings_def using assms by (intro load_table_csv_reader) simp_all

lemma load_prediction_file:
  assumes "csv_reader (prediction_file tid src) = Inr (PREDICTIONS_HEADER # rows)"
  shows "load_predictions (fs(PREDICTIONS_PATH \<mapsto> prediction_file tid src))
       = Inr (map (dict_zip PREDICTIONS_HEADER) rows)"
  unfolding load_predictions_def using assms by (intro load_table_csv_reader) simp_all

text \<open>
  The claim as stated fails. The true-mappings file \<open>two_row_file\<close> has two rows; the last
  field of the first is \<^verbatim>\<open>"""x"\<close>, which the reader takes for the value \<^verbatim>\<open>"x\<close>. Lint loads
  two records and writes the value \<^verbatim>\<open>"x\<close> as it is. In the file that lint leaves, the
  field \<^verbatim>\<open>"x\<close> opens a quote that is never closed, so the second line is read into it:
  the table has one record after lint.
\<close>

theorem C9_lint_loses_a_record:
  "load_mappings (two_row_store [QUOTE, QUOTE, QUOTE, CHR ''x'', QUOTE] ''s'')
     = Inr [dict_zip MAPPINGS_HEADER (quoted_row [QUOTE, CHR ''x'']),
            dict_zip MAPPINGS_HEADER (quoted_row ''s'')] \<and>
   lint_true_mappings (two_row_store [QUOTE, QUOTE, QUOTE, CHR ''x'', QUOTE] ''s'')
     = Inr (two_row_store [QUOTE, CHR ''x''] ''s'') \<and>
   load_mappings (two_row_store [QUOTE, CHR ''x''] ''s'')
     = Inr [dict_zip MAPPINGS_HEADER (quoted_row ([CHR ''x'', LF] @ print_line (quoted_row ''s'')))] \<and>
   mset [dict_zip MAPPINGS_HEADER (quoted_row ([CHR ''x'', LF] @ print_line (quoted_row ''s'')))]
     \<noteq> mset [dict_zip MAPPINGS_HEADER (quoted_row [QUOTE, CHR ''x'']),
              dict_zip MAPPINGS_HEADER (quoted_row ''s'')]"
proof (intro conjI)
  let ?fs = "two_row_store [QUOTE, QUOTE, QUOTE, CHR ''x'', QUOTE] ''s''"
  let ?r1 = "dict_zip MAPPINGS_HEADER (quoted_row [QUOTE, CHR ''x''])"
  let ?r2 = "dict_zip MAPPINGS_HEADER (quoted_row ''s'')"
  have load: "load_rows TrueMappings ?fs = Inr [?r1, ?r2]"
    using load_two_row_store [OF csv_reader_two_row_file_1, of Map.empty]
    by (simp add: two_row_store_def)
  then show "load_mappings ?fs = Inr [?r1, ?r2]" by simp
  have order: "sort_key key_of [?r1, ?r2] = [?r1, ?r2]"
    by (simp add: key_of_quoted_row less_eq_prod_def QUOTE_def less_eq_char_def less_char_def)
  have "lint_rows TrueMappings ?fs
      = Inr (?fs(path_of TrueMappings \<mapsto>
          table_text (header_of TrueMappings) (sort_key key_of [?r1, ?r2])))"
    using load by (rule lint_rows_loaded) (simp add: quoted_row_has_columns)
  then have "lint_rows TrueMappings ?fs
      = Inr (?fs(path_of TrueMappings \<mapsto> table_text (header_of TrueMappings) [?r1, ?r2]))"
    by (simp only: order)
  then show "lint_true_mappings ?fs = Inr (two_row_store [QUOTE, CHR ''x''] ''s'')"
    by (simp add: table_text_two_rows two_row_store_def)
  show "load_mappings (two_row_store [QUOTE, CHR ''x''] ''s'')
     = Inr [dict_zip MAPPINGS_HEADER (quoted_row ([CHR ''x'', LF] @ print_line (quoted_row ''s'')))]"
    using load_two_row_store [OF csv_reader_two_row_file_2, of Map.empty]
    by (simp add: two_row_store_def)
  have "size (mset [dict_zip MAPPINGS_HEADER (quoted_row ([CHR ''x'', LF] @ print_line (quoted_row ''s'')))])
      \<noteq> size (mset [?r1, ?r2])" by simp
  then show "mset [dict_zip MAPPINGS_HEADER (quoted_row ([CHR ''x'', LF] @ print_line (quoted_row ''s'')))]
     \<noteq> mset [?r1, ?r2]" by metis
qed

text \<open>
  The claim as stated fails. The predictions file \<open>prediction_file\<close> has one row with the
  target identifier written \<^verbatim>\<open>"""B"""\<close>, which the reader takes for the value \<^verbatim>\<open>"B"\<close>; the
  filter has the entry \<^verbatim>\<open>B\<close> for the row's source prefix, target prefix and source
  identifier. The check keeps the record (\<^verbatim>\<open>"B"\<close> is not \<^verbatim>\<open>B\<close>), the value is written as it
  is, and the record that remains in the table is read with the target identifier \<^verbatim>\<open>B\<close>:
  it satisfies the filter.
\<close>

theorem C5_kept_record_is_excluded_after_reload:
  "load_predictions (prediction_store [QUOTE, QUOTE, QUOTE, CHR ''B'', QUOTE, QUOTE, QUOTE] ''s'')
     = Inr [dict_zip PREDICTIONS_HEADER (prediction_row [QUOTE, CHR ''B'', QUOTE] ''s'')] \<and>
   check_filter (dict_zip PREDICTIONS_HEADER (prediction_row [QUOTE, CHR ''B'', QUOTE] ''s''))
       identifier_filter = Inr True \<and>
   filter_predictions identifier_filter
       (prediction_store [QUOTE, QUOTE, QUOTE, CHR ''B'', QUOTE, QUOTE, QUOTE] ''s'')
     = Inr (prediction_store [QUOTE, CHR ''B'', QUOTE] ''s'') \<and>
   load_predictions (prediction_store [QUOTE, CHR ''B'', QUOTE] ''s'')
     = Inr [dict_zip PREDICTIONS_HEADER (prediction_row ''B'' ''s'')] \<and>
   check_filter (dict_zip PREDICTIONS_HEADER (prediction_row ''B'' ''s'')) identifier_filter
     = Inr False \<and>
   excluded identifier_filter (dict_zip PREDICTIONS_HEADER (prediction_row ''B'' ''s''))"
proof (intro conjI)
  let ?fs = "prediction_store [QUOTE, QUOTE, QUOTE, CHR ''B'', QUOTE, QUOTE, QUOTE] ''s''"
  let ?r = "dict_zip PREDICTIONS_HEADER (prediction_row [QUOTE, CHR ''B'', QUOTE] ''s'')"
  let ?r' = "dict_zip PREDICTIONS_HEADER (prediction_row ''B'' ''s'')"
  show load: "load_predictions ?fs = Inr [?r]"
    using load_prediction_file [OF csv_reader_prediction_file_1, of Map.empty]
    by (simp add: prediction_store_def)
  have keep: "\<not> excluded identifier_filter ?r"
    by (simp add: excluded_def identifier_filter_def dict_zip_def PREDICTIONS_HEADER_def
        prediction_row_def QUOTE_def)
  have cols: "has_columns KEY_COLUMNS ?r" "has_columns KEY_COLUMNS ?r'"
    using schema_key_columns [OF schema_header_of [of Predictions]] prediction_row_has_columns
    by simp_all
  show check: "check_filter ?r identifier_filter = Inr True"
    using check_filter_total [OF cols(1), of identifier_filter] keep by simp
  have "write_rows Predictions [?r] ?fs
      = Inr (?fs(path_of Predictions \<mapsto> table_text (header_of Predictions) (sort_key key_of [?r])))"
    by (rule write_rows_total) (simp add: prediction_row_has_columns)
  then have "write_predictions [?r] ?fs = Inr (prediction_store [QUOTE, CHR ''B'', QUOTE] ''s'')"
    by (simp add: table_text_prediction_row prediction_store_def)
  then show "filter_predictions identifier_filter ?fs
      = Inr (prediction_store [QUOTE, CHR ''B'', QUOTE] ''s'')"
    using load check by (simp add: filter_predictions_def and_then_Inr)
  show "load_predictions (prediction_store [QUOTE, CHR ''B'', QUOTE] ''s'') = Inr [?r']"
    using load_prediction_file [OF csv_reader_prediction_file_2, of Map.empty]
    by (simp add: prediction_store_def)
  show ex: "excluded identifier_filter ?r'"
    by (simp add: excluded_def identifier_filter_def dict_zip_def PREDICTIONS_HEADER_def
        prediction_row_def)
  show "check_filter ?r' identifier_filter = Inr False"
    using check_filter_total [OF cols(2), of identifier_filter] ex by simp
qed

lemma known_store_paths:
  "known_store TRUE_MAPPINGS_PATH = Some (quoted_file ''s'')"
  "known_store FALSE_MAPPINGS_PATH = Some (table_text MAPPINGS_HEADER [])"
  "known_store PREDICTIONS_PATH = Some (table_text PREDICTIONS_HEADER [])"
  using paths_distinct by (simp_all add: known_store_def)

lemma quoted_file_table_text:
  "quoted_file v = table_text MAPPINGS_HEADER [dict_zip MAPPINGS_HEADER (quoted_row v)]"
  by (simp add: quoted_file_def table_text_def rows_text_def row_values_quoted_row)

lemma record_of_quoted_row:
  assumes "tsv_safe v"
  shows "record_of MAPPINGS_HEADER (dict_zip MAPPINGS_HEADER (quoted_row v))"
proof (rule record_of_values)
  show "dom (dict_zip MAPPINGS_HEADER (quoted_row v)) = set MAPPINGS_HEADER"
    by (rule dict_zip_dom) (simp add: MAPPINGS_HEADER_def quoted_row_def)
  have "list_all tsv_safe (quoted_row v)"
    using assms quoted_prefix_safe by (simp add: quoted_row_def)
  then show "list_all tsv_safe (row_values MAPPINGS_HEADER (dict_zip MAPPINGS_HEADER (quoted_row v)))"
    by (simp only: row_values_quoted_row)
qed

lemma known_store_holds:
  "table_holds TrueMappings [dict_zip MAPPINGS_HEADER (quoted_row ''s'')] known_store"
  "table_holds FalseMappings [] known_store"
  "table_holds Predictions [] known_store"
  by (simp_all add: table_holds_def known_store_paths quoted_file_table_text
      record_of_quoted_row tsv_safe_short)

text \<open>
  The claim as stated fails. The true-mappings table holds a record with the source
  \<^verbatim>\<open>s\<close>; the predictions table is empty. Two records come in: one with the source \<^verbatim>\<open>s\<close>,
  whose canonical key is that of the true mapping, and one that differs from it only in
  the source \<^verbatim>\<open>"s"\<close>, with a new key. The first is dropped; the second is written as it
  is, and the reader takes its last field for the quoted value \<^verbatim>\<open>s\<close>: after the call the
  predictions table holds the record that was dropped.
\<close>

theorem C1_dropped_record_is_in_table_after_call:
  "load_mappings known_store = Inr [dict_zip MAPPINGS_HEADER (quoted_row ''s'')] \<and>
   load_false_mappings known_store = Inr [] \<and>
   load_predictions known_store = Inr [] \<and>
   get_canonical_tuple (dict_zip MAPPINGS_HEADER (quoted_row ''s''))
     = Inr (''a'', ''1'', ''r'', ''b'', ''2'', ''t'', ''s'') \<and>
   get_canonical_tuple (dict_zip PREDICTIONS_HEADER (prediction_row ''2'' ''s''))
     = Inr (''a'', ''1'', ''r'', ''b'', ''2'', ''t'', ''s'') \<and>
   append_predictions get_canonical_tuple
       [dict_zip PREDICTIONS_HEADER (prediction_row ''2'' ''s''),
        dict_zip PREDICTIONS_HEADER (prediction_row ''2'' [QUOTE, CHR ''s'', QUOTE])]
       True False known_store
     = Inr (known_store(PREDICTIONS_PATH \<mapsto> prediction_file ''2'' [QUOTE, CHR ''s'', QUOTE])) \<and>
   load_predictions (known_store(PREDICTIONS_PATH \<mapsto> prediction_file ''2'' [QUOTE, CHR ''s'', QUOTE]))
     = Inr [dict_zip PREDICTIONS_HEADER (prediction_row ''2'' ''s'')]"
proof (intro conjI)
  let ?t = "dict_zip MAPPINGS_HEADER (quoted_row ''s'')"
  let ?p = "dict_zip PREDICTIONS_HEADER (prediction_row ''2'' ''s'')"
  let ?q = "dict_zip PREDICTIONS_HEADER (prediction_row ''2'' [QUOTE, CHR ''s'', QUOTE])"
  show "load_mappings known_store = Inr [?t]"
    using table_holds_load [OF known_store_holds(1)] by simp
  show "load_false_mappings known_store = Inr []"
    using table_holds_load [OF known_store_holds(2)] by simp
  show "load_predictions known_store = Inr []"
    using table_holds_load [OF known_store_holds(3)] by simp
  have pcols: "has_columns KEY_COLUMNS ?p" "has_columns KEY_COLUMNS ?q"
    using schema_key_columns [OF schema_header_of [of Predictions]] prediction_row_has_columns
    by simp_all
  have "has_columns KEY_COLUMNS ?t"
    using schema_key_columns [OF schema_header_of [of TrueMappings]] quoted_row_has_columns
    by simp
  then show "get_canonical_tuple ?t = Inr (''a'', ''1'', ''r'', ''b'', ''2'', ''t'', ''s'')"
    using get_canonical_tuple_total [of ?t] by (simp add: key_of_quoted_row)
  show "get_canonical_tuple ?p = Inr (''a'', ''1'', ''r'', ''b'', ''2'', ''t'', ''s'')"
    using get_canonical_tuple_total [OF pcols(1)] by (simp add: key_of_prediction_row)
  have K: "existing_mappings get_canonical_tuple known_store = Inr (key_of ` set ([?t] @ [] @ []))"
    by (rule existing_mappings_holds [OF known_store_holds])
  have "\<forall>r\<in>set [?p, ?q]. get_canonical_tuple r = Inr (key_of r)"
    using pcols get_canonical_tuple_total by simp
  then have "not_in_existing get_canonical_tuple (key_of ` set ([?t] @ [] @ [])) [?p, ?q]
      = Inr (filter (\<lambda>r. key_of r \<notin> key_of ` set ([?t] @ [] @ [])) [?p, ?q])"
    by (rule not_in_existing_total)
  also have "filter (\<lambda>r. key_of r \<notin> key_of ` set ([?t] @ [] @ [])) [?p, ?q] = [?q]"
    by (simp add: key_of_quoted_row key_of_prediction_row QUOTE_def)
  finally have survivors:
    "not_in_existing get_canonical_tuple (key_of ` set ([?t] @ [] @ [])) [?p, ?q] = Inr [?q]" .
  have "append_rows Predictions [?q] False known_store
      = Inr (known_store(path_of Predictions \<mapsto>
          table_text PREDICTIONS_HEADER [] @ rows_text (header_of Predictions) (sort_key key_of [?q])))"
    by (rule append_rows_plain) (simp_all add: known_store_paths prediction_row_has_columns)
  then have "append_rows Predictions [?q] False known_store
      = Inr (known_store(PREDICTIONS_PATH \<mapsto> prediction_file ''2'' [QUOTE, CHR ''s'', QUOTE]))"
    by (simp add: table_text_append table_text_prediction_row)
  then show "append_predictions get_canonical_tuple [?p, ?q] True False known_store
     = Inr (known_store(PREDICTIONS_PATH \<mapsto> prediction_file ''2'' [QUOTE, CHR ''s'', QUOTE]))"
    using K survivors by (simp only: append_predictions_dedup and_then_Inr)
  show "load_predictions (known_store(PREDICTIONS_PATH \<mapsto> prediction_file ''2'' [QUOTE, CHR ''s'', QUOTE]))
     = Inr [?p]"
    using load_prediction_file [OF csv_reader_prediction_file_3, of known_store] by simp
qed

text \<open>
  The claim as stated fails. For a plain append: the true-mappings table holds the record
  with source prefix \<^verbatim>\<open>x\<close>; appending the record with source prefix \<^verbatim>\<open>a\<close> without sorting
  leaves the file with \<^verbatim>\<open>x\<close> before \<^verbatim>\<open>a\<close>. For a value that is not read back as it was
  written: of two records that differ in the source, \<^verbatim>\<open>a\<close> and \<^verbatim>\<open>"z"\<close>, the write puts
  \<^verbatim>\<open>"z"\<close> first, and the records of the file are then read with the sources \<^verbatim>\<open>z\<close> and
  \<^verbatim>\<open>a\<close>, in this order.
\<close>

theorem C2_file_order_is_not_canonical:
  "append_true_mappings [example_mapping ''a''] False example_store
     = Inr (example_store(TRUE_MAPPINGS_PATH \<mapsto>
         table_text MAPPINGS_HEADER [example_mapping ''x'', example_mapping ''a''])) \<and>
   load_mappings (example_store(TRUE_MAPPINGS_PATH \<mapsto>
         table_text MAPPINGS_HEADER [example_mapping ''x'', example_mapping ''a'']))
     = Inr [example_mapping ''x'', example_mapping ''a''] \<and>
   traverse mapping_sort_key [example_mapping ''x'', example_mapping ''a'']
     = Inr [(''x'', ''1'', ''skos:exactMatch'', ''t'', ''2'', ''manual'', ''orcid:0000''),
            (''a'', ''1'', ''skos:exactMatch'', ''t'', ''2'', ''manual'', ''orcid:0000'')] \<and>
   \<not> sorted [(''x'', ''1'', ''skos:exactMatch'', ''t'', ''2'', ''manual'', ''orcid:0000''),
             (''a'', ''1'', ''skos:exactMatch'', ''t'', ''2'', ''manual'', ''orcid:0000'')] \<and>
   write_true_mappings
       [dict_zip MAPPINGS_HEADER (quoted_row ''a''),
        dict_zip MAPPINGS_HEADER (quoted_row [QUOTE, CHR ''z'', QUOTE])] example_store
     = Inr (example_store(TRUE_MAPPINGS_PATH \<mapsto> two_row_file [QUOTE, CHR ''z'', QUOTE] ''a'')) \<and>
   load_mappings (example_store(TRUE_MAPPINGS_PATH \<mapsto> two_row_file [QUOTE, CHR ''z'', QUOTE] ''a''))
     = Inr [dict_zip MAPPINGS_HEADER (quoted_row ''z''), dict_zip MAPPINGS_HEADER (quoted_row ''a'')] \<and>
   traverse mapping_sort_key
       [dict_zip MAPPINGS_HEADER (quoted_row ''z''), dict_zip MAPPINGS_HEADER (quoted_row ''a'')]
     = Inr [(''a'', ''1'', ''r'', ''b'', ''2'', ''t'', ''z''),
            (''a'', ''1'', ''r'', ''b'', ''2'', ''t'', ''a'')] \<and>
   \<not> sorted [(''a'', ''1'', ''r'', ''b'', ''2'', ''t'', ''z''),
             (''a'', ''1'', ''r'', ''b'', ''2'', ''t'', ''a'')]"
proof (intro conjI)
  have "append_rows TrueMappings [example_mapping ''a''] False example_store
      = Inr (example_store(path_of TrueMappings \<mapsto>
          table_text (header_of TrueMappings) ([example_mapping ''x''] @ sort_key key_of [example_mapping ''a''])))"
    using example_store_paths(1) example_append_batch_ok
    by (intro append_rows_plain_table_text) simp_all
  then show "append_true_mappings [example_mapping ''a''] False example_store
     = Inr (example_store(TRUE_MAPPINGS_PATH \<mapsto>
         table_text MAPPINGS_HEADER [example_mapping ''x'', example_mapping ''a'']))"
    by simp
  have "table_holds TrueMappings [example_mapping ''x'', example_mapping ''a'']
          (example_store(TRUE_MAPPINGS_PATH \<mapsto>
             table_text MAPPINGS_HEADER [example_mapping ''x'', example_mapping ''a'']))"
    by (simp add: table_holds_def record_of_example_mapping tsv_safe_literals)
  then show "load_mappings (example_store(TRUE_MAPPINGS_PATH \<mapsto>
         table_text MAPPINGS_HEADER [example_mapping ''x'', example_mapping ''a'']))
     = Inr [example_mapping ''x'', example_mapping ''a'']"
    using table_holds_load by fastforce
  have "\<forall>r\<in>set [example_mapping ''x'', example_mapping ''a'']. mapping_sort_key r = Inr (key_of r)"
    using record_of_example_mapping tsv_safe_literals
      schema_key_columns [OF schema_header_of [of TrueMappings] row_ok_has_columns]
    by (auto intro!: mapping_sort_key_total simp: record_of_def)
  then have "traverse mapping_sort_key [example_mapping ''x'', example_mapping ''a'']
      = Inr (map key_of [example_mapping ''x'', example_mapping ''a''])"
    by (rule traverse_map)
  then show "traverse mapping_sort_key [example_mapping ''x'', example_mapping ''a'']
     = Inr [(''x'', ''1'', ''skos:exactMatch'', ''t'', ''2'', ''manual'', ''orcid:0000''),
            (''a'', ''1'', ''skos:exactMatch'', ''t'', ''2'', ''manual'', ''orcid:0000'')]"
    by (simp add: key_of_example_mapping)
  show "\<not> sorted [(''x'', ''1'', ''skos:exactMatch'', ''t'', ''2'', ''manual'', ''orcid:0000''),
             (''a'', ''1'', ''skos:exactMatch'', ''t'', ''2'', ''manual'', ''orcid:0000'')]"
    by (simp add: less_eq_prod_def less_eq_char_def less_char_def)
  let ?a = "dict_zip MAPPINGS_HEADER (quoted_row ''a'')"
  let ?q = "dict_zip MAPPINGS_HEADER (quoted_row [QUOTE, CHR ''z'', QUOTE])"
  let ?z = "dict_zip MAPPINGS_HEADER (quoted_row ''z'')"
  have order: "sort_key key_of [?a, ?q] = [?q, ?a]"
    by (simp add: key_of_quoted_row less_eq_prod_def QUOTE_def less_eq_char_def less_char_def)
  have "write_rows TrueMappings [?a, ?q] example_store
      = Inr (example_store(path_of TrueMappings \<mapsto>
          table_text (header_of TrueMappings) (sort_key key_of [?a, ?q])))"
    by (rule write_rows_total) (simp add: quoted_row_has_columns)
  then have "write_rows TrueMappings [?a, ?q] example_store
      = Inr (example_store(path_of TrueMappings \<mapsto> table_text (header_of TrueMappings) [?q, ?a]))"
    by (simp only: order)
  then show "write_true_mappings [?a, ?q] example_store
     = Inr (example_store(TRUE_MAPPINGS_PATH \<mapsto> two_row_file [QUOTE, CHR ''z'', QUOTE] ''a''))"
    by (simp add: table_text_two_rows)
  show "load_mappings (example_store(TRUE_MAPPINGS_PATH \<mapsto> two_row_file [QUOTE, CHR ''z'', QUOTE] ''a''))
     = Inr [?z, ?a]"
    using load_two_row_store [OF csv_reader_two_row_file_3, of example_store] by simp
  have "\<forall>r\<in>set [?z, ?a]. mapping_sort_key r = Inr (key_of r)"
    using schema_key_columns [OF schema_header_of [of TrueMappings]] quoted_row_has_columns
    by (auto intro!: mapping_sort_key_total)
  then have "traverse mapping_sort_key [?z, ?a] = Inr (map key_of [?z, ?a])"
    by (rule traverse_map)
  then show "traverse mapping_sort_key [?z, ?a]
     = Inr [(''a'', ''1'', ''r'', ''b'', ''2'', ''t'', ''z''),
            (''a'', ''1'', ''r'', ''b'', ''2'', ''t'', ''a'')]"
    by (simp add: key_of_quoted_row)
  show "\<not> sorted [(''a'', ''1'', ''r'', ''b'', ''2'', ''t'', ''z''),
             (''a'', ''1'', ''r'', ''b'', ''2'', ''t'', ''a'')]"
    by (simp add: less_eq_prod_def less_eq_char_def less_char_def)
qed

subsection \<open>Lint of a table that is not sorted\<close>

lemma example_unsorted_sorted:
  "sort_key key_of example_unsorted
   = [example_prediction ''a'' ''name 1'' ''0.5'', example_prediction ''p'' ''name 1'' ''0.9'',
      example_prediction ''p'' ''other name'' ''0.5'']"
  by (simp add: example_unsorted_def key_of_example_prediction less_eq_prod_def less_eq_char_def
      less_char_def)

lemma unsorted_store_holds: "table_holds Predictions example_unsorted unsorted_store"
  by (simp add: table_holds_def unsorted_store_def example_unsorted_def
      record_of_example_prediction tsv_safe_literals)

lemma unsorted_store_lint:
  "lint_rows Predictions unsorted_store
   = Inr (unsorted_store(PREDICTIONS_PATH \<mapsto> table_text PREDICTIONS_HEADER
       [example_prediction ''a'' ''name 1'' ''0.5'', example_prediction ''p'' ''name 1'' ''0.9'',
        example_prediction ''p'' ''other name'' ''0.5'']))"
proof -
  have "lint_rows Predictions unsorted_store
      = Inr (unsorted_store(path_of Predictions \<mapsto>
          table_text (header_of Predictions) (sort_key key_of example_unsorted)))"
    using table_holds_load [OF unsorted_store_holds]
      rows_ok_has_columns [OF table_holds_rows_ok [OF unsorted_store_holds]]
    by (rule lint_rows_loaded)
  then show ?thesis by (simp only: example_unsorted_sorted path_of.simps header_of.simps)
qed

lemma unsorted_store_linted_load:
  "load_rows Predictions (unsorted_store(PREDICTIONS_PATH \<mapsto> table_text PREDICTIONS_HEADER
       [example_prediction ''a'' ''name 1'' ''0.5'', example_prediction ''p'' ''name 1'' ''0.9'',
        example_prediction ''p'' ''other name'' ''0.5'']))
   = Inr [example_prediction ''a'' ''name 1'' ''0.5'', example_prediction ''p'' ''name 1'' ''0.9'',
        example_prediction ''p'' ''other name'' ''0.5'']"
proof -
  have "table_holds Predictions
     [example_prediction ''a'' ''name 1'' ''0.5'', example_prediction ''p'' ''name 1'' ''0.9'',
        example_prediction ''p'' ''other name'' ''0.5'']
     (unsorted_store(PREDICTIONS_PATH \<mapsto> table_text PREDICTIONS_HEADER
       [example_prediction ''a'' ''name 1'' ''0.5'', example_prediction ''p'' ''name 1'' ''0.9'',
        example_prediction ''p'' ''other name'' ''0.5'']))"
    by (simp add: table_holds_def record_of_example_prediction tsv_safe_literals)
  then show ?thesis by (rule table_holds_load)
qed

theorem C9_lint_only_reorders_witness:
  "table_holds Predictions example_unsorted unsorted_store \<and>
   example_unsorted
     = [example_prediction ''p'' ''name 1'' ''0.9'', example_prediction ''a'' ''name 1'' ''0.5'',
        example_prediction ''p'' ''other name'' ''0.5''] \<and>
   load_rows Predictions unsorted_store = Inr example_unsorted \<and>
   lint_rows Predictions unsorted_store
     = Inr (unsorted_store(PREDICTIONS_PATH \<mapsto> table_text PREDICTIONS_HEADER
         [example_prediction ''a'' ''name 1'' ''0.5'', example_prediction ''p'' ''name 1'' ''0.9'',
          example_prediction ''p'' ''other name'' ''0.5''])) \<and>
   load_rows Predictions (unsorted_store(PREDICTIONS_PATH \<mapsto> table_text PREDICTIONS_HEADER
         [example_prediction ''a'' ''name 1'' ''0.5'', example_prediction ''p'' ''name 1'' ''0.9'',
          example_prediction ''p'' ''other name'' ''0.5'']))
     = Inr [example_prediction ''a'' ''name 1'' ''0.5'', example_prediction ''p'' ''name 1'' ''0.9'',
          example_prediction ''p'' ''other name'' ''0.5''] \<and>
   mset [example_prediction ''a'' ''name 1'' ''0.5'', example_prediction ''p'' ''name 1'' ''0.9'',
          example_prediction ''p'' ''other name'' ''0.5'']
     = mset example_unsorted \<and>
   (\<forall>k. length (filter (\<lambda>r. key_of r = k)
            [example_prediction ''a'' ''name 1'' ''0.5'', example_prediction ''p'' ''name 1'' ''0.9'',
             example_prediction ''p'' ''other name'' ''0.5''])
       = length (filter (\<lambda>r. key_of r = k) example_unsorted)) \<and>
   length (filter (\<lambda>r. key_of r = (''p'', ''1'', ''skos:exactMatch'', ''t'', ''2'', ''lexical'', ''generator''))
       example_unsorted) = 2"
proof -
  let ?S = "[example_prediction ''a'' ''name 1'' ''0.5'', example_prediction ''p'' ''name 1'' ''0.9'',
          example_prediction ''p'' ''other name'' ''0.5'']"
  let ?fs' = "unsorted_store(PREDICTIONS_PATH \<mapsto> table_text PREDICTIONS_HEADER ?S)"
  note inst = C9_lint_only_reorders [of Predictions unsorted_store ?fs' example_unsorted]
  from inst unsorted_store_holds obtain fs'' after
    where l: "load_rows Predictions unsorted_store = Inr example_unsorted"
      and "lint_rows Predictions unsorted_store = Inr fs''"
      and "load_rows Predictions fs'' = Inr after"
      and m: "mset after = mset example_unsorted"
      and c: "\<forall>k. length (filter (\<lambda>r. key_of r = k) after)
                = length (filter (\<lambda>r. key_of r = k) example_unsorted)"
    by blast
  then have "fs'' = ?fs'" and "after = ?S"
    using unsorted_store_lint unsorted_store_linted_load by simp_all
  then have "mset ?S = mset example_unsorted"
    and "\<forall>k. length (filter (\<lambda>r. key_of r = k) ?S)
                = length (filter (\<lambda>r. key_of r = k) example_unsorted)"
    using m c by simp_all
  moreover have "length (filter (\<lambda>r. key_of r = (''p'', ''1'', ''skos:exactMatch'', ''t'', ''2'', ''lexical'', ''generator''))
       example_unsorted) = 2"
    by (simp add: example_unsorted_def key_of_example_prediction)
  ultimately show ?thesis
    using unsorted_store_holds l unsorted_store_lint unsorted_store_linted_load
    by (simp add: example_unsorted_def)
qed

subsection \<open>A filter on a table of which it keeps a record\<close>

lemma example_filter_unsorted:
  "excluded example_filter (example_prediction ''p'' ''name 1'' ''0.9'')"
  "excluded example_filter (example_prediction ''p'' ''other name'' ''0.5'')"
  "\<not> excluded example_filter (example_prediction ''a'' ''name 1'' ''0.5'')"
  by (simp_all add: excluded_def example_filter_def example_prediction_def dict_zip_def
      PREDICTIONS_HEADER_def)

lemma example_unsorted_key_columns:
  "has_columns KEY_COLUMNS (example_prediction ''p'' ''other name'' ''0.5'')"
  "has_columns KEY_COLUMNS (example_prediction ''a'' ''name 1'' ''0.5'')"
  using record_of_example_prediction tsv_safe_literals
    schema_key_columns [OF schema_header_of [of Predictions] row_ok_has_columns]
  by (simp_all add: record_of_def)

lemma unsorted_store_filtered:
  "filter_predictions example_filter unsorted_store
   = Inr (unsorted_store(PREDICTIONS_PATH \<mapsto>
       table_text PREDICTIONS_HEADER [example_prediction ''a'' ''name 1'' ''0.5'']))"
  using filter_predictions_table [OF unsorted_store_holds, of example_filter]
  by (simp add: example_unsorted_def example_filter_unsorted)

lemma unsorted_store_filtered_load:
  "load_predictions (unsorted_store(PREDICTIONS_PATH \<mapsto>
       table_text PREDICTIONS_HEADER [example_prediction ''a'' ''name 1'' ''0.5'']))
   = Inr [example_prediction ''a'' ''name 1'' ''0.5'']"
proof -
  have "table_holds Predictions [example_prediction ''a'' ''name 1'' ''0.5'']
     (unsorted_store(PREDICTIONS_PATH \<mapsto>
       table_text PREDICTIONS_HEADER [example_prediction ''a'' ''name 1'' ''0.5'']))"
    by (simp add: table_holds_def record_of_example_prediction tsv_safe_literals)
  then show ?thesis using table_holds_load by fastforce
qed

theorem C5_filter_removes_exactly_the_excluded_witness:
  "table_holds Predictions example_unsorted unsorted_store \<and>
   example_unsorted
     = [example_prediction ''p'' ''name 1'' ''0.9'', example_prediction ''a'' ''name 1'' ''0.5'',
        example_prediction ''p'' ''other name'' ''0.5''] \<and>
   load_predictions unsorted_store = Inr example_unsorted \<and>
   filter_predictions example_filter unsorted_store
     = Inr (unsorted_store(PREDICTIONS_PATH \<mapsto>
         table_text PREDICTIONS_HEADER [example_prediction ''a'' ''name 1'' ''0.5''])) \<and>
   load_predictions (unsorted_store(PREDICTIONS_PATH \<mapsto>
         table_text PREDICTIONS_HEADER [example_prediction ''a'' ''name 1'' ''0.5'']))
     = Inr [example_prediction ''a'' ''name 1'' ''0.5''] \<and>
   [example_prediction ''a'' ''name 1'' ''0.5'']
     = sort_key key_of (filter (\<lambda>r. \<not> excluded example_filter r) example_unsorted) \<and>
   example_prediction ''p'' ''name 1'' ''0.9'' \<notin> set [example_prediction ''a'' ''name 1'' ''0.5''] \<and>
   example_prediction ''p'' ''other name'' ''0.5'' \<notin> set [example_prediction ''a'' ''name 1'' ''0.5''] \<and>
   example_prediction ''a'' ''name 1'' ''0.5'' \<in> set [example_prediction ''a'' ''name 1'' ''0.5''] \<and>
   excluded example_filter (example_prediction ''p'' ''name 1'' ''0.9'') \<and>
   excluded example_filter (example_prediction ''p'' ''other name'' ''0.5'') \<and>
   \<not> excluded example_filter (example_prediction ''a'' ''name 1'' ''0.5'') \<and>
   has_columns KEY_COLUMNS (example_prediction ''p'' ''name 1'' ''0.9'') \<and>
   check_filter (example_prediction ''p'' ''name 1'' ''0.9'') example_filter = Inr False \<and>
   has_columns KEY_COLUMNS (example_prediction ''a'' ''name 1'' ''0.5'') \<and>
   check_filter (example_prediction ''a'' ''name 1'' ''0.5'') example_filter = Inr True \<and>
   (\<exists>loaded. load_predictions unsorted_store = Inr loaded \<and>
      unsorted_store(PREDICTIONS_PATH \<mapsto>
          table_text PREDICTIONS_HEADER [example_prediction ''a'' ''name 1'' ''0.5''])
        = unsorted_store(PREDICTIONS_PATH \<mapsto> table_text PREDICTIONS_HEADER
            (sort_key key_of (filter (\<lambda>r. \<not> excluded example_filter r) loaded))))"
proof -
  let ?p = "example_prediction ''p'' ''name 1'' ''0.9''"
  let ?a = "example_prediction ''a'' ''name 1'' ''0.5''"
  let ?fs' = "unsorted_store(PREDICTIONS_PATH \<mapsto> table_text PREDICTIONS_HEADER [?a])"
  note inst = C5_filter_removes_exactly_the_excluded
    [of example_filter unsorted_store ?fs' example_unsorted]
  from inst unsorted_store_filtered
  obtain loaded where written: "load_predictions unsorted_store = Inr loaded"
    "?fs' = unsorted_store(PREDICTIONS_PATH \<mapsto> table_text PREDICTIONS_HEADER
            (sort_key key_of (filter (\<lambda>r. \<not> excluded example_filter r) loaded)))"
    by blast
  from inst example_known_key_columns
  have cp: "check_filter ?p example_filter = Inr (\<not> excluded example_filter ?p)" by blast
  from inst example_unsorted_key_columns(2)
  have ca: "check_filter ?a example_filter = Inr (\<not> excluded example_filter ?a)" by blast
  from inst unsorted_store_holds
  obtain fs'' rows where l: "load_predictions unsorted_store = Inr example_unsorted"
    and f: "filter_predictions example_filter unsorted_store = Inr fs''"
    and r: "load_predictions fs'' = Inr rows"
    and rows: "rows = sort_key key_of (filter (\<lambda>r. \<not> excluded example_filter r) example_unsorted)"
    and none: "\<forall>r\<in>set rows. \<not> excluded example_filter r"
    and kept: "\<forall>r\<in>set example_unsorted. r \<in> set rows \<longleftrightarrow> \<not> excluded example_filter r"
    by blast
  have "fs'' = ?fs'" using f unsorted_store_filtered by simp
  then have eq: "rows = [?a]" using r unsorted_store_filtered_load by simp
  have one: "[?a] = sort_key key_of (filter (\<lambda>r. \<not> excluded example_filter r) example_unsorted)"
    using rows eq by simp
  have kept': "\<forall>r\<in>set example_unsorted. r \<in> set [?a] \<longleftrightarrow> \<not> excluded example_filter r"
    using kept eq by simp
  have mem: "?p \<in> set example_unsorted"
    "example_prediction ''p'' ''other name'' ''0.5'' \<in> set example_unsorted"
    "?a \<in> set example_unsorted"
    by (simp_all add: example_unsorted_def)
  have out1: "?p \<notin> set [?a]"
    using kept' mem(1) example_filter_unsorted(1) by blast
  have out2: "example_prediction ''p'' ''other name'' ''0.5'' \<notin> set [?a]"
    using kept' mem(2) example_filter_unsorted(2) by blast
  have in3: "?a \<in> set [?a]"
    using kept' mem(3) example_filter_unsorted(3) by blast
  have u: "example_unsorted
     = [example_prediction ''p'' ''name 1'' ''0.9'', example_prediction ''a'' ''name 1'' ''0.5'',
        example_prediction ''p'' ''other name'' ''0.5'']" by (rule example_unsorted_def)
  have w: "\<exists>loaded. load_predictions unsorted_store = Inr loaded \<and>
      ?fs' = unsorted_store(PREDICTIONS_PATH \<mapsto> table_text PREDICTIONS_HEADER
            (sort_key key_of (filter (\<lambda>r. \<not> excluded example_filter r) loaded)))"
    using written by blast
  have cp': "check_filter ?p example_filter = Inr False"
    using cp example_filter_unsorted(1) by (simp only: not_True_eq_False)
  have ca': "check_filter ?a example_filter = Inr True"
    using ca example_filter_unsorted(3) by (simp only: not_False_eq_True)
  show ?thesis
    by (intro conjI unsorted_store_holds u l unsorted_store_filtered unsorted_store_filtered_load
        one out1 out2 in3 example_filter_unsorted example_known_key_columns
        example_unsorted_key_columns(2) cp' ca' w)
qed

end
